theory Spec2Isabelle
  imports Main "HOL-Library.Word" "HOL-Library.Sublist"
begin

section \<open>Strings and numbers of the host language\<close>

text \<open>
  A TypeScript string is a sequence of UTF-16 code units. Literals of the source are
  ASCII and are written through \<open>str\<close>.
\<close>

type_synonym code_unit = "16 word"
type_synonym js_string = "code_unit list"

definition str :: "string \<Rightarrow> js_string" where
  "str s = map of_char s"

text \<open>
  \<open>`${n}`\<close> for a non-negative integer \<open>n\<close>: its decimal digits, most significant
  first, without leading zeros.
\<close>

fun toString :: "nat \<Rightarrow> js_string" where
  "toString n =
     (if n < 10 then [of_nat (48 + n)]
      else toString (n div 10) @ [of_nat (48 + n mod 10)])"

declare toString.simps [simp del]

text \<open>
  \<open>String.prototype.trim\<close> strips the code units that ECMAScript calls WhiteSpace
  (TAB, VT, FF, SP, NBSP, ZWNBSP and the Unicode space separators) or LineTerminator
  (LF, CR, LS, PS) from both ends.
\<close>

definition isWhiteSpace :: "code_unit \<Rightarrow> bool" where
  "isWhiteSpace c =
     (c = 0x0009 \<or> c = 0x000A \<or> c = 0x000B \<or> c = 0x000C \<or> c = 0x000D \<or>
      c = 0x0020 \<or> c = 0x00A0 \<or> c = 0x1680 \<or> (0x2000 \<le> c \<and> c \<le> 0x200A) \<or>
      c = 0x2028 \<or> c = 0x2029 \<or> c = 0x202F \<or> c = 0x205F \<or> c = 0x3000 \<or>
      c = 0xFEFF)"

definition trim :: "js_string \<Rightarrow> js_string" where
  "trim s = rev (dropWhile isWhiteSpace (rev (dropWhile isWhiteSpace s)))"

text \<open>
  \<open>Array.prototype.includes\<close> (named \<open>includes_arr\<close> here): a linear scan for an
  equal element.
\<close>

primrec includes_arr :: "'a list \<Rightarrow> 'a \<Rightarrow> bool" where
  "includes_arr [] x = False"
| "includes_arr (y # ys) x = (y = x \<or> includes_arr ys x)"


section \<open>Data model\<close>

text \<open>
  The interface \<open>PullRequest\<close>. The author, the assignees and the requested reviewers
  have the same shape \<open>{login, avatar_url}\<close>. The field \<open>id\<close> is named \<open>id_pr\<close> here.
\<close>

record user =
  login :: js_string
  avatar_url :: js_string

record label =
  name :: js_string
  color :: js_string

record PullRequest =
  id_pr :: int
  number :: int
  title :: js_string
  user :: user
  html_url :: js_string
  created_at :: js_string
  updated_at :: js_string
  state :: js_string
  labels :: "label list"
  assignees :: "user list"
  requested_reviewers :: "user list"

text \<open>The settings object of \<open>config.ts\<close>.\<close>

record repo =
  owner :: js_string
  name :: js_string

record config =
  repo :: repo
  excludedAuthors :: "js_string list"
  perPage :: nat
  maxPages :: nat

definition config :: config where
  "config =
     \<lparr> repo = \<lparr> owner = str ''expo'', name = str ''expo'' \<rparr>,
       excludedAuthors =
         [ str ''jonsamp'', str ''HubertBer'', str ''douglowder'', str ''vonovak'',
           str ''Kudo'', str ''tsapeta'', str ''kitten'',
           str ''intergalacticspacehighway'', str ''Wenszel'', str ''hassankhan'',
           str ''jakex7'', str ''behenate'', str ''aleqsio'', str ''alanjhughes'',
           str ''Ubax'', str ''gabrieldonadel'', str ''amandeepmittal'',
           str ''lukmccall'', str ''chrfalch'', str ''kadikraman'', str ''sjchmiela'',
           str ''byCedric'', str ''EvanBacon'', str ''dependabot[bot]'',
           str ''krystofwoldrich'', str ''hirbod'', str ''brentvatne'',
           str ''quinlanj'', str ''kosmydel'', str ''barthap'' ],
       perPage = 100,
       maxPages = 5 \<rparr>"

text \<open>
  The state variables of the component \<open>HomeScreen\<close>, one field per \<open>useState\<close>. A
  setter call is a field update; the value a field holds is the value the rest of the
  application sees.
\<close>

record app_state =
  prs :: "PullRequest list"
  allPrs :: "PullRequest list"
  loading :: bool
  error :: "js_string option"
  excludedAuthors :: "js_string list"
  newAuthor :: js_string
  showSettings :: bool

definition initial_state :: app_state where
  "initial_state =
     \<lparr> prs = [], allPrs = [], loading = True, error = None,
       excludedAuthors = config.excludedAuthors config,
       newAuthor = [], showSettings = False \<rparr>"


section \<open>Filter and excluded-author editor\<close>

definition filterPRs :: "app_state \<Rightarrow> app_state" where
  "filterPRs st =
     (let filteredPrs =
            filter (\<lambda>pr. \<not> includes_arr (app_state.excludedAuthors st) (login (user pr)))
              (allPrs st)
      in st\<lparr>prs := filteredPrs\<rparr>)"

definition addExcludedAuthor :: "app_state \<Rightarrow> app_state" where
  "addExcludedAuthor st =
     (let trimmedAuthor = trim (newAuthor st)
      in if trimmedAuthor \<noteq> [] \<and> \<not> includes_arr (app_state.excludedAuthors st) trimmedAuthor
         then st\<lparr>excludedAuthors := app_state.excludedAuthors st @ [trimmedAuthor],
                 newAuthor := []\<rparr>
         else st)"

definition removeExcludedAuthor :: "js_string \<Rightarrow> app_state \<Rightarrow> app_state" where
  "removeExcludedAuthor author st =
     st\<lparr>excludedAuthors := filter (\<lambda>a. a \<noteq> author) (app_state.excludedAuthors st)\<rparr>"

text \<open>
  The editor's \<open>add\<close>: the text input stores the typed text with \<open>setNewAuthor\<close>, and
  submitting it runs \<open>addExcludedAuthor\<close>.
\<close>

definition add :: "js_string \<Rightarrow> app_state \<Rightarrow> app_state" where
  "add s st = addExcludedAuthor (st\<lparr>newAuthor := s\<rparr>)"

text \<open>A session of editing: any sequence of \<open>add\<close> and \<open>remove\<close>.\<close>

datatype edit = Add js_string | Remove js_string

fun apply_edit :: "app_state \<Rightarrow> edit \<Rightarrow> app_state" where
  "apply_edit st (Add s) = add s st"
| "apply_edit st (Remove a) = removeExcludedAuthor a st"

definition apply_edits :: "edit list \<Rightarrow> app_state \<Rightarrow> app_state" where
  "apply_edits es st = foldl apply_edit st es"

fun removed :: "edit list \<Rightarrow> js_string set" where
  "removed [] = {}"
| "removed (Add s # es) = removed es"
| "removed (Remove a # es) = insert a (removed es)"


section \<open>Fetcher\<close>

text \<open>
  What a rejected promise carries: an \<open>Error\<close> object with its message, or any other
  value (the \<open>catch\<close> block tests \<open>err instanceof Error\<close>).
\<close>

datatype thrown = Error js_string | NonError

text \<open>
  The part of a \<open>Response\<close> the code reads. \<open>ok\<close> is the flag the code tests (the
  platform sets it for the status codes 200 to 299). \<open>json\<close> is the outcome of
  \<open>await response.json()\<close>: the parsed array, or what the parser threw.
\<close>

record response =
  ok :: bool
  status :: nat
  statusText :: js_string
  json :: "thrown + PullRequest list"

record request =
  url :: js_string
  headers :: "(js_string \<times> js_string) list"

text \<open>\<open>process.env\<close>: the variable is undefined or holds a string.\<close>

record process_env =
  GITHUB_TOKEN :: "js_string option"

text \<open>
  The network: \<open>await fetch(url, {headers})\<close> resolves with a response or rejects.
\<close>

type_synonym endpoint = "request \<Rightarrow> thrown + response"

definition build_url :: "config \<Rightarrow> nat \<Rightarrow> js_string" where
  "build_url cfg page =
     str ''https://api.github.com/repos/'' @ owner (repo cfg) @ str ''/'' @
     name (repo cfg) @ str ''/pulls?state=open&per_page='' @ toString (perPage cfg) @
     str ''&page='' @ toString page"

text \<open>A string is truthy when it is not empty; \<open>undefined\<close> is falsy.\<close>

definition build_headers :: "process_env \<Rightarrow> (js_string \<times> js_string) list" where
  "build_headers env =
     (let headers = [(str ''Accept'', str ''application/vnd.github.v3+json'')]
      in case GITHUB_TOKEN env of
           None \<Rightarrow> headers
         | Some token \<Rightarrow>
             if token \<noteq> [] then headers @ [(str ''Authorization'', str ''token '' @ token)]
             else headers)"

definition build_request :: "config \<Rightarrow> process_env \<Rightarrow> nat \<Rightarrow> request" where
  "build_request cfg env page = \<lparr> url = build_url cfg page, headers = build_headers env \<rparr>"

definition api_error :: "response \<Rightarrow> js_string" where
  "api_error r =
     str ''GitHub API error: '' @ toString (status r) @ str '' '' @ statusText r"

text \<open>
  One pass through the loop body up to \<open>data\<close>: the request, the status check and the
  parsing. \<open>Inl\<close> is a \<open>throw\<close>.
\<close>

definition fetch_page ::
  "config \<Rightarrow> process_env \<Rightarrow> endpoint \<Rightarrow> nat \<Rightarrow> thrown + PullRequest list" where
  "fetch_page cfg env net page =
     (case net (build_request cfg env page) of
        Inl err \<Rightarrow> Inl err
      | Inr r \<Rightarrow> if \<not> ok r then Inl (Error (api_error r)) else json r)"

text \<open>
  The \<open>for\<close> loop, from \<open>page\<close> on, with the local array \<open>fetchedPrs\<close> and the component
  state. It returns what the loop leaves (\<open>Inl\<close>: thrown; \<open>Inr\<close>: the final
  \<open>fetchedPrs\<close>), the state, and one entry per request issued, in order: the request
  and the component state at the moment it is issued, which is the state the rest of
  the application sees while that request is pending.
\<close>

function fetch_loop ::
  "config \<Rightarrow> process_env \<Rightarrow> endpoint \<Rightarrow> nat \<Rightarrow> PullRequest list \<Rightarrow> app_state \<Rightarrow>
     (thrown + PullRequest list) \<times> app_state \<times> (request \<times> app_state) list" where
  "fetch_loop cfg env net page fetchedPrs st =
     (if page \<le> maxPages cfg then
        (case fetch_page cfg env net page of
           Inl err \<Rightarrow> (Inl err, st, [(build_request cfg env page, st)])
         | Inr data \<Rightarrow>
             if length data = 0 then (Inr fetchedPrs, st, [(build_request cfg env page, st)])
             else
               (let fetchedPrs' = fetchedPrs @ data;
                    st' = st\<lparr>allPrs := fetchedPrs', loading := False\<rparr>;
                    (res, st'', log) = fetch_loop cfg env net (page + 1) fetchedPrs' st'
                in (res, st'', (build_request cfg env page, st) # log)))
      else (Inr fetchedPrs, st, []))"
  by pat_completeness auto
termination
  by (relation "measure (\<lambda>(cfg, env, net, page, fetchedPrs, st). Suc (maxPages cfg) - page)")
     auto

declare fetch_loop.simps [simp del]

text \<open>The \<open>catch\<close> block: \<open>err instanceof Error ? err.message : "An error occurred"\<close>.\<close>

definition message :: "thrown \<Rightarrow> js_string" where
  "message err = (case err of Error m \<Rightarrow> m | NonError \<Rightarrow> str ''An error occurred'')"

text \<open>
  The whole operation: the state it leaves and the requests it issued, each with the
  state visible while it was pending.
\<close>

definition fetchPullRequests ::
  "config \<Rightarrow> process_env \<Rightarrow> endpoint \<Rightarrow> app_state \<Rightarrow>
     app_state \<times> (request \<times> app_state) list" where
  "fetchPullRequests cfg env net st =
     (let st1 = st\<lparr>loading := True, error := None\<rparr>
      in case fetch_loop cfg env net 1 [] st1 of
           (Inr fetchedPrs, st2, log) \<Rightarrow> (st2\<lparr>allPrs := fetchedPrs, loading := False\<rparr>, log)
         | (Inl err, st2, log) \<Rightarrow> (st2\<lparr>error := Some (message err), loading := False\<rparr>, log))"


section \<open>Notions used in the statements\<close>

text \<open>The records page \<open>k\<close> delivers; none when the page fails.\<close>

definition page_records :: "config \<Rightarrow> process_env \<Rightarrow> endpoint \<Rightarrow> nat \<Rightarrow> PullRequest list" where
  "page_records cfg env net k =
     (case fetch_page cfg env net k of Inl err \<Rightarrow> [] | Inr data \<Rightarrow> data)"

text \<open>Page \<open>k\<close> is fetched without error and is not empty.\<close>

definition nonempty_page :: "config \<Rightarrow> process_env \<Rightarrow> endpoint \<Rightarrow> nat \<Rightarrow> bool" where
  "nonempty_page cfg env net k =
     (case fetch_page cfg env net k of Inl err \<Rightarrow> False | Inr data \<Rightarrow> data \<noteq> [])"

text \<open>The concatenation, in page order, of the records of pages \<open>1\<close> to \<open>k\<close>.\<close>

definition accumulated :: "config \<Rightarrow> process_env \<Rightarrow> endpoint \<Rightarrow> nat \<Rightarrow> PullRequest list" where
  "accumulated cfg env net k = concat (map (page_records cfg env net) [1..<Suc k])"

text \<open>
  How many consecutive pages from \<open>p\<close> on, up to the cap, are fetched without error
  and are not empty.
\<close>

definition good_pages :: "config \<Rightarrow> process_env \<Rightarrow> endpoint \<Rightarrow> nat \<Rightarrow> nat" where
  "good_pages cfg env net p =
     length (takeWhile (nonempty_page cfg env net) [p..<Suc (maxPages cfg)])"

text \<open>
  The number of requests of a whole fetch: one per good page, and one more for the page
  that stops the fetch when the cap is not reached.
\<close>

definition requests_issued :: "config \<Rightarrow> process_env \<Rightarrow> endpoint \<Rightarrow> nat" where
  "requests_issued cfg env net =
     (if Suc (good_pages cfg env net 1) \<le> maxPages cfg
      then Suc (good_pages cfg env net 1) else good_pages cfg env net 1)"

text \<open>
  The component state after \<open>i\<close> passes of the loop that started at page \<open>p\<close> with
  \<open>fetchedPrs = f\<close> in state \<open>st\<close>.
\<close>

definition snapshot ::
  "config \<Rightarrow> process_env \<Rightarrow> endpoint \<Rightarrow> nat \<Rightarrow> PullRequest list \<Rightarrow> app_state \<Rightarrow> nat \<Rightarrow>
     app_state" where
  "snapshot cfg env net p f st i =
     (if i = 0 then st
      else st\<lparr>allPrs := f @ concat (map (page_records cfg env net) [p..<p + i]),
              loading := False\<rparr>)"


section \<open>Concrete inputs\<close>

definition test_pr :: "int \<Rightarrow> js_string \<Rightarrow> PullRequest" where
  "test_pr n author =
     \<lparr> id_pr = n, number = n, title = [], user = \<lparr> login = author, avatar_url = [] \<rparr>,
       html_url = [], created_at = [], updated_at = [], state = str ''open'',
       labels = [], assignees = [], requested_reviewers = [] \<rparr>"

definition test_state :: app_state where
  "test_state =
     \<lparr> prs = [],
       allPrs = [test_pr 1 (str ''alice''), test_pr 2 (str ''bob''), test_pr 3 (str ''alice'')],
       loading = False, error = None,
       excludedAuthors = [str ''bob'', str ''carol''],
       newAuthor = [], showSettings = False \<rparr>"

definition test_edits :: "edit list" where
  "test_edits =
     [Add (str ''  alice ''), Remove (str ''bob''), Add (str ''carol''), Add (str ''bob'')]"

definition no_token :: process_env where
  "no_token = \<lparr> GITHUB_TOKEN = None \<rparr>"

definition empty_token :: process_env where
  "empty_token = \<lparr> GITHUB_TOKEN = Some [] \<rparr>"

definition test_token :: process_env where
  "test_token = \<lparr> GITHUB_TOKEN = Some (str ''ghp_abc'') \<rparr>"

definition ok_response :: "PullRequest list \<Rightarrow> response" where
  "ok_response data = \<lparr> ok = True, status = 200, statusText = str ''OK'', json = Inr data \<rparr>"

definition forbidden_response :: response where
  "forbidden_response =
     \<lparr> ok = False, status = 403, statusText = str ''Forbidden'', json = Inr [] \<rparr>"

text \<open>An endpoint whose pages have the sizes 100, 100 and 0.\<close>

definition mock_100_100_0 :: endpoint where
  "mock_100_100_0 req =
     (if url req = build_url config 1
        then Inr (ok_response (replicate 100 (test_pr 1 (str ''alice''))))
      else if url req = build_url config 2
        then Inr (ok_response (replicate 100 (test_pr 2 (str ''bob''))))
      else Inr (ok_response []))"

text \<open>An endpoint that never returns an empty page.\<close>

definition mock_never_empty :: endpoint where
  "mock_never_empty req = Inr (ok_response [test_pr 1 (str ''alice'')])"

text \<open>An endpoint that answers page 1 and refuses every other page with status 403.\<close>

definition mock_403_on_page_2 :: endpoint where
  "mock_403_on_page_2 req =
     (if url req = build_url config 1 then Inr (ok_response [test_pr 1 (str ''alice'')])
      else Inr forbidden_response)"

text \<open>A network that is down: every call rejects.\<close>

definition net_down :: endpoint where
  "net_down req = Inl (Error (str ''Network request failed''))"

text \<open>The state a fetch leaves when page 1 is answered and page 2 is refused.\<close>

definition state_after_403 :: app_state where
  "state_after_403 = fst (fetchPullRequests config no_token mock_403_on_page_2 initial_state)"


section \<open>Basic facts: strings and the editor\<close>

lemma includes_arr_set: "includes_arr xs x \<longleftrightarrow> x \<in> set xs"
  by (induction xs) auto

lemma trim_decomp:
  "\<exists>l r. s = l @ trim s @ r \<and> list_all isWhiteSpace l \<and> list_all isWhiteSpace r"
proof -
  let ?l = "takeWhile isWhiteSpace s"
  let ?m = "dropWhile isWhiteSpace s"
  let ?r = "rev (takeWhile isWhiteSpace (rev ?m))"
  have "rev ?m = takeWhile isWhiteSpace (rev ?m) @ dropWhile isWhiteSpace (rev ?m)"
    by simp
  then have "?m = trim s @ ?r"
    unfolding trim_def by (metis rev_append rev_rev_ident)
  then have "s = ?l @ trim s @ ?r"
    by (metis takeWhile_dropWhile_id)
  moreover have "list_all isWhiteSpace ?l"
    by (simp add: list_all_iff) (meson set_takeWhileD)
  moreover have "list_all isWhiteSpace ?r"
    by (simp add: list_all_iff) (meson set_takeWhileD)
  ultimately show ?thesis by blast
qed

lemma trim_hd: "trim s \<noteq> [] \<Longrightarrow> \<not> isWhiteSpace (hd (trim s))"
proof -
  assume ne: "trim s \<noteq> []"
  let ?m = "dropWhile isWhiteSpace s"
  have m: "?m \<noteq> []" using ne by (auto simp: trim_def simp del: dropWhile_eq_Nil_conv)
  then have h: "\<not> isWhiteSpace (hd ?m)" by (rule hd_dropWhile)
  have "rev (trim s) = dropWhile isWhiteSpace (rev ?m)" by (simp add: trim_def)
  then obtain r where "rev ?m = r @ rev (trim s)"
    by (metis takeWhile_dropWhile_id)
  then have "?m = trim s @ rev r" by (metis rev_append rev_rev_ident)
  with ne have "hd ?m = hd (trim s)" by (metis hd_append2)
  with h show ?thesis by simp
qed

lemma trim_last: "trim s \<noteq> [] \<Longrightarrow> \<not> isWhiteSpace (last (trim s))"
proof -
  assume ne: "trim s \<noteq> []"
  let ?m = "dropWhile isWhiteSpace (rev (dropWhile isWhiteSpace s))"
  have "?m \<noteq> []" using ne by (auto simp: trim_def)
  then have "\<not> isWhiteSpace (hd ?m)" by (rule hd_dropWhile)
  moreover have "last (trim s) = hd ?m" using \<open>?m \<noteq> []\<close> by (simp add: trim_def last_rev)
  ultimately show ?thesis by simp
qed

lemma trim_fixed:
  assumes "s = [] \<or> (\<not> isWhiteSpace (hd s) \<and> \<not> isWhiteSpace (last s))"
  shows "trim s = s"
proof (cases "s = []")
  case True then show ?thesis by (simp add: trim_def)
next
  case False
  with assms have h: "\<not> isWhiteSpace (hd s)" and l: "\<not> isWhiteSpace (last s)" by auto
  from False h have 1: "dropWhile isWhiteSpace s = s" by (cases s) auto
  from False l have 2: "dropWhile isWhiteSpace (rev s) = rev s"
    by (cases "rev s") (auto simp: last_rev[symmetric] hd_rev)
  show ?thesis by (simp add: trim_def 1 2)
qed

lemma trim_idem: "trim (trim s) = trim s"
  by (rule trim_fixed) (use trim_hd trim_last in blast)

lemma trim_alice: "trim (str ''  alice  '') = str ''alice''"
  by (simp add: trim_def str_def isWhiteSpace_def)

lemma add_excluded:
  "app_state.excludedAuthors (add s st) =
     (if trim s = [] \<or> trim s \<in> set (app_state.excludedAuthors st)
      then app_state.excludedAuthors st
      else app_state.excludedAuthors st @ [trim s])"
  by (simp add: add_def addExcludedAuthor_def Let_def includes_arr_set)

lemma remove_excluded:
  "app_state.excludedAuthors (removeExcludedAuthor a st) =
     [x \<leftarrow> app_state.excludedAuthors st. x \<noteq> a]"
  by (simp add: removeExcludedAuthor_def)

lemma apply_edit_distinct:
  "distinct (app_state.excludedAuthors st) \<Longrightarrow>
   distinct (app_state.excludedAuthors (apply_edit st e))"
  by (cases e) (simp_all add: add_excluded remove_excluded)

lemma apply_edits_distinct:
  "distinct (app_state.excludedAuthors st) \<Longrightarrow>
   distinct (app_state.excludedAuthors (apply_edits es st))"
  unfolding apply_edits_def
  by (induction es arbitrary: st) (simp_all add: apply_edit_distinct)

lemma apply_edit_keeps_order:
  assumes "removed [e] \<subseteq> R"
  shows "prefix [x \<leftarrow> app_state.excludedAuthors st. x \<notin> R]
           [x \<leftarrow> app_state.excludedAuthors (apply_edit st e). x \<notin> R]"
proof (cases e)
  case (Add s)
  then show ?thesis by (simp add: add_excluded)
next
  case (Remove a)
  with assms have "a \<in> R" by simp
  then have "[x \<leftarrow> app_state.excludedAuthors st. x \<noteq> a \<and> x \<notin> R] =
      [x \<leftarrow> app_state.excludedAuthors st. x \<notin> R]"
    by (intro filter_cong) auto
  with Remove show ?thesis by (simp add: remove_excluded)
qed

lemma removed_Cons: "removed (e # es) = removed [e] \<union> removed es"
  by (cases e) simp_all

lemma apply_edits_keeps_order:
  "removed es \<subseteq> R \<Longrightarrow>
   prefix [x \<leftarrow> app_state.excludedAuthors st. x \<notin> R]
     [x \<leftarrow> app_state.excludedAuthors (apply_edits es st). x \<notin> R]"
proof (induction es arbitrary: st)
  case Nil
  then show ?case by (simp add: apply_edits_def)
next
  case (Cons e es)
  from Cons.prems have e: "removed [e] \<subseteq> R" and es: "removed es \<subseteq> R"
    by (simp_all add: removed_Cons [of e es])
  have "prefix [x \<leftarrow> app_state.excludedAuthors st. x \<notin> R]
          [x \<leftarrow> app_state.excludedAuthors (apply_edit st e). x \<notin> R]"
    using e by (rule apply_edit_keeps_order)
  also have "prefix \<dots> [x \<leftarrow> app_state.excludedAuthors (apply_edits es (apply_edit st e)). x \<notin> R]"
    using es by (rule Cons.IH)
  finally show ?case by (simp add: apply_edits_def)
qed

lemma filter_survivors:
  "[x \<leftarrow> E. x \<noteq> a] =
     [x \<leftarrow> E. x \<in> set [x \<leftarrow> E. x \<noteq> a]] @ [x \<leftarrow> [x \<leftarrow> E. x \<noteq> a]. x \<notin> set E]"
proof -
  have A: "[x \<leftarrow> E. x \<in> set [x \<leftarrow> E. x \<noteq> a]] = [x \<leftarrow> E. x \<noteq> a]"
    by (rule filter_cong) auto
  have B: "[x \<leftarrow> [x \<leftarrow> E. x \<noteq> a]. x \<notin> set E] = []"
    by (simp add: filter_empty_conv)
  show ?thesis by (simp only: A B append_Nil2)
qed

lemma apply_edit_survivors:
  "app_state.excludedAuthors (apply_edit st e) =
     [x \<leftarrow> app_state.excludedAuthors st. x \<in> set (app_state.excludedAuthors (apply_edit st e))] @
     [x \<leftarrow> app_state.excludedAuthors (apply_edit st e). x \<notin> set (app_state.excludedAuthors st)]"
proof (cases e)
  case (Add s)
  then show ?thesis by (simp add: add_excluded)
next
  case (Remove a)
  then show ?thesis
    by (simp only: apply_edit.simps remove_excluded) (rule filter_survivors)
qed

lemma config_distinct: "distinct (config.excludedAuthors config)"
  by (simp add: config_def str_def)


section \<open>Basic facts: the loop of the fetcher\<close>

lemma fetch_loop_cap:
  "\<not> page \<le> maxPages cfg \<Longrightarrow> fetch_loop cfg env net page f st = (Inr f, st, [])"
  by (simp add: fetch_loop.simps)

lemma fetch_loop_throw:
  "page \<le> maxPages cfg \<Longrightarrow> fetch_page cfg env net page = Inl err \<Longrightarrow>
   fetch_loop cfg env net page f st = (Inl err, st, [(build_request cfg env page, st)])"
  by (simp add: fetch_loop.simps)

lemma fetch_loop_empty:
  "page \<le> maxPages cfg \<Longrightarrow> fetch_page cfg env net page = Inr [] \<Longrightarrow>
   fetch_loop cfg env net page f st = (Inr f, st, [(build_request cfg env page, st)])"
  by (simp add: fetch_loop.simps)

lemma fetch_loop_more:
  "page \<le> maxPages cfg \<Longrightarrow> nonempty_page cfg env net page \<Longrightarrow>
   fetch_loop cfg env net page f st =
     (case fetch_loop cfg env net (Suc page) (f @ page_records cfg env net page)
             (st\<lparr>allPrs := f @ page_records cfg env net page, loading := False\<rparr>) of
        (res, st'', log) \<Rightarrow> (res, st'', (build_request cfg env page, st) # log))"
  by (subst fetch_loop.simps)
     (auto simp: nonempty_page_def page_records_def Let_def split: sum.splits)

lemma snapshot_shift:
  "snapshot cfg env net (Suc p) (f @ page_records cfg env net p)
     (st\<lparr>allPrs := f @ page_records cfg env net p, loading := False\<rparr>) i =
   snapshot cfg env net p f st (Suc i)"
  by (simp add: snapshot_def upt_conv_Cons)

lemma fetch_loop_good_prefix:
  "(\<And>j. p \<le> j \<Longrightarrow> j < p + n \<Longrightarrow> nonempty_page cfg env net j) \<Longrightarrow>
   p + n \<le> Suc (maxPages cfg) \<Longrightarrow>
   fetch_loop cfg env net p f st =
     (case fetch_loop cfg env net (p + n)
             (f @ concat (map (page_records cfg env net) [p..<p + n]))
             (snapshot cfg env net p f st n) of
        (res, st'', log) \<Rightarrow>
          (res, st'',
           map (\<lambda>i. (build_request cfg env (p + i), snapshot cfg env net p f st i)) [0..<n]
             @ log))"
proof (induction n arbitrary: p f st)
  case 0
  then show ?case by (simp add: snapshot_def split: prod.splits)
next
  case (Suc n)
  have p: "p \<le> maxPages cfg" and g: "nonempty_page cfg env net p"
    using Suc.prems by auto
  let ?f = "f @ page_records cfg env net p"
  let ?st = "st\<lparr>allPrs := ?f, loading := False\<rparr>"
  have "fetch_loop cfg env net (Suc p) ?f ?st =
     (case fetch_loop cfg env net (Suc p + n)
             (?f @ concat (map (page_records cfg env net) [Suc p..<Suc p + n]))
             (snapshot cfg env net (Suc p) ?f ?st n) of
        (res, st'', log) \<Rightarrow>
          (res, st'',
           map (\<lambda>i. (build_request cfg env (Suc p + i), snapshot cfg env net (Suc p) ?f ?st i)) [0..<n]
             @ log))"
    using Suc.prems by (intro Suc.IH) auto
  then have IH: "fetch_loop cfg env net (Suc p) ?f ?st =
     (case fetch_loop cfg env net (Suc p + n)
             (?f @ concat (map (page_records cfg env net) [Suc p..<Suc p + n]))
             (snapshot cfg env net p f st (Suc n)) of
        (res, st'', log) \<Rightarrow>
          (res, st'',
           map (\<lambda>i. (build_request cfg env (Suc p + i), snapshot cfg env net p f st (Suc i))) [0..<n]
             @ log))"
    by (simp only: snapshot_shift)
  have e: "p + Suc n = Suc p + n" by simp
  have c: "f @ concat (map (page_records cfg env net) [p..<Suc p + n]) =
      ?f @ concat (map (page_records cfg env net) [Suc p..<Suc p + n])"
    by (simp add: upt_conv_Cons del: upt_Suc)
  have m: "map (\<lambda>i. (build_request cfg env (p + i), snapshot cfg env net p f st i)) [0..<Suc n] =
      (build_request cfg env p, st) #
      map (\<lambda>i. (build_request cfg env (Suc p + i), snapshot cfg env net p f st (Suc i))) [0..<n]"
    by (simp only: map_upt_Suc) (simp add: snapshot_def)
  obtain res st2 log where X: "fetch_loop cfg env net (Suc p + n)
             (?f @ concat (map (page_records cfg env net) [Suc p..<Suc p + n]))
             (snapshot cfg env net p f st (Suc n)) = (res, st2, log)"
    by (metis prod_cases3)
  have X': "fetch_loop cfg env net (p + Suc n)
             (f @ concat (map (page_records cfg env net) [p..<p + Suc n]))
             (snapshot cfg env net p f st (Suc n)) = (res, st2, log)"
    by (simp only: e c X)
  show ?case
    by (simp only: fetch_loop_more [OF p g] IH X X' m prod.case append_Cons)
qed

lemma good_pages_all:
  assumes "p \<le> j" and "j < p + good_pages cfg env net p"
  shows "nonempty_page cfg env net j"
proof -
  let ?xs = "[p..<Suc (maxPages cfg)]"
  let ?t = "takeWhile (nonempty_page cfg env net) ?xs"
  have l: "j - p < length ?t" using assms by (simp add: good_pages_def del: upt_Suc)
  also have "\<dots> \<le> length ?xs" by (rule length_takeWhile_le)
  finally have "?xs ! (j - p) = j" using assms(1) by (simp del: upt_Suc)
  moreover have "?t ! (j - p) = ?xs ! (j - p)" using l by (rule takeWhile_nth)
  moreover have "?t ! (j - p) \<in> set ?t" using l by (rule nth_mem)
  ultimately have "j \<in> set ?t" by simp
  then show ?thesis by (rule set_takeWhileD [THEN conjunct2])
qed

lemma good_pages_le:
  "p \<le> Suc (maxPages cfg) \<Longrightarrow> p + good_pages cfg env net p \<le> Suc (maxPages cfg)"
  using length_takeWhile_le [of "nonempty_page cfg env net" "[p..<Suc (maxPages cfg)]"]
  by (simp add: good_pages_def del: upt_Suc)

lemma good_pages_stop:
  assumes "p + good_pages cfg env net p \<le> maxPages cfg"
  shows "\<not> nonempty_page cfg env net (p + good_pages cfg env net p)"
proof -
  let ?xs = "[p..<Suc (maxPages cfg)]"
  have l: "length (takeWhile (nonempty_page cfg env net) ?xs) < length ?xs"
    using assms by (simp add: good_pages_def del: upt_Suc)
  then have "\<not> nonempty_page cfg env net (?xs ! length (takeWhile (nonempty_page cfg env net) ?xs))"
    by (rule nth_length_takeWhile)
  moreover have "?xs ! length (takeWhile (nonempty_page cfg env net) ?xs) =
      p + good_pages cfg env net p"
    using l by (simp add: good_pages_def del: upt_Suc)
  ultimately show ?thesis by simp
qed

lemma good_pages_eq:
  assumes all: "\<And>j. p \<le> j \<Longrightarrow> j < p + n \<Longrightarrow> nonempty_page cfg env net j"
    and stop: "p + n \<le> maxPages cfg \<Longrightarrow> \<not> nonempty_page cfg env net (p + n)"
    and le: "p + n \<le> Suc (maxPages cfg)"
  shows "good_pages cfg env net p = n"
proof (rule ccontr)
  let ?g = "good_pages cfg env net p"
  assume "?g \<noteq> n"
  then consider "?g < n" | "n < ?g" by linarith
  then show False
  proof cases
    case 1
    with le have "p + ?g \<le> maxPages cfg" by simp
    then have "\<not> nonempty_page cfg env net (p + ?g)" by (rule good_pages_stop)
    moreover have "nonempty_page cfg env net (p + ?g)" using 1 by (intro all) simp_all
    ultimately show False by simp
  next
    case 2
    have "p \<le> Suc (maxPages cfg)" using le by simp
    then have "p + ?g \<le> Suc (maxPages cfg)" by (rule good_pages_le)
    with 2 have "p + n \<le> maxPages cfg" by simp
    then have "\<not> nonempty_page cfg env net (p + n)" by (rule stop)
    moreover have "nonempty_page cfg env net (p + n)" 
      by (rule good_pages_all [of p]) (use 2 in simp_all)
    ultimately show False by simp
  qed
qed

lemma not_nonempty_cases:
  "\<not> nonempty_page cfg env net k \<Longrightarrow>
   (\<exists>err. fetch_page cfg env net k = Inl err) \<or> fetch_page cfg env net k = Inr []"
  by (auto simp: nonempty_page_def split: sum.splits)

lemma fetch_loop_stop:
  assumes "q \<le> maxPages cfg" and "\<not> nonempty_page cfg env net q"
  shows "fetch_loop cfg env net q f st =
     (case fetch_page cfg env net q of Inl err \<Rightarrow> Inl err | Inr data \<Rightarrow> Inr f,
      st, [(build_request cfg env q, st)])"
  using not_nonempty_cases [OF assms(2)] assms(1)
  by (auto simp: fetch_loop_throw fetch_loop_empty)

lemma fetch_loop_closed:
  assumes "p \<le> Suc (maxPages cfg)"
  shows "fetch_loop cfg env net p f st =
     (if p + good_pages cfg env net p \<le> maxPages cfg
      then (case fetch_page cfg env net (p + good_pages cfg env net p) of
              Inl err \<Rightarrow> Inl err
            | Inr data \<Rightarrow>
                Inr (f @ concat (map (page_records cfg env net) [p..<p + good_pages cfg env net p])))
      else Inr (f @ concat (map (page_records cfg env net) [p..<p + good_pages cfg env net p])),
      snapshot cfg env net p f st (good_pages cfg env net p),
      map (\<lambda>i. (build_request cfg env (p + i), snapshot cfg env net p f st i))
        [0..<(if p + good_pages cfg env net p \<le> maxPages cfg
              then Suc (good_pages cfg env net p) else good_pages cfg env net p)])"
proof -
  let ?g = "good_pages cfg env net p"
  have pre: "fetch_loop cfg env net p f st =
     (case fetch_loop cfg env net (p + ?g)
             (f @ concat (map (page_records cfg env net) [p..<p + ?g]))
             (snapshot cfg env net p f st ?g) of
        (res, st'', log) \<Rightarrow>
          (res, st'',
           map (\<lambda>i. (build_request cfg env (p + i), snapshot cfg env net p f st i)) [0..<?g]
             @ log))"
    by (rule fetch_loop_good_prefix) (simp_all add: good_pages_all good_pages_le assms)
  show ?thesis
  proof (cases "p + ?g \<le> maxPages cfg")
    case True
    then have ns: "\<not> nonempty_page cfg env net (p + ?g)" by (rule good_pages_stop)
    show ?thesis
      by (simp only: pre fetch_loop_stop [OF True ns] True prod.case if_True map_append upt_Suc_append
          le0 list.map append_Nil)
  next
    case False
    then show ?thesis
      by (simp only: pre fetch_loop_cap [OF False] prod.case if_False append_Nil2)
  qed
qed

lemma accumulated_alt:
  "[] @ concat (map (page_records cfg env net) [1..<1 + k]) = accumulated cfg env net k"
  by (simp add: accumulated_def del: upt_Suc)

lemma fetchPullRequests_closed:
  "fetchPullRequests cfg env net st =
     (let st1 = st\<lparr>loading := True, error := None\<rparr>;
          g = good_pages cfg env net 1;
          sg = snapshot cfg env net 1 [] st1 g;
          done = sg\<lparr>allPrs := accumulated cfg env net g, loading := False\<rparr>
      in (if Suc g \<le> maxPages cfg
          then (case fetch_page cfg env net (Suc g) of
                  Inl err \<Rightarrow> sg\<lparr>error := Some (message err), loading := False\<rparr>
                | Inr data \<Rightarrow> done)
          else done,
          map (\<lambda>i. (build_request cfg env (Suc i), snapshot cfg env net 1 [] st1 i))
            [0..<requests_issued cfg env net]))"
proof -
  have c: "fetch_loop cfg env net 1 [] st1 = 
     (if 1 + good_pages cfg env net 1 \<le> maxPages cfg
      then (case fetch_page cfg env net (1 + good_pages cfg env net 1) of
              Inl err \<Rightarrow> Inl err
            | Inr data \<Rightarrow>
                Inr ([] @ concat (map (page_records cfg env net) [1..<1 + good_pages cfg env net 1])))
      else Inr ([] @ concat (map (page_records cfg env net) [1..<1 + good_pages cfg env net 1])),
      snapshot cfg env net 1 [] st1 (good_pages cfg env net 1),
      map (\<lambda>i. (build_request cfg env (1 + i), snapshot cfg env net 1 [] st1 i))
        [0..<(if 1 + good_pages cfg env net 1 \<le> maxPages cfg
              then Suc (good_pages cfg env net 1) else good_pages cfg env net 1)])" for st1
    by (rule fetch_loop_closed) simp
  show ?thesis
    unfolding fetchPullRequests_def Let_def c accumulated_alt requests_issued_def
    by (simp split: sum.splits)
qed

lemma fetch_log:
  "snd (fetchPullRequests cfg env net st) =
     map (\<lambda>i. (build_request cfg env (Suc i),
               snapshot cfg env net 1 [] (st\<lparr>loading := True, error := None\<rparr>) i))
       [0..<requests_issued cfg env net]"
  by (simp add: fetchPullRequests_closed Let_def)

lemma fetch_log_length:
  "length (snd (fetchPullRequests cfg env net st)) = requests_issued cfg env net"
  by (simp add: fetch_log)

lemma requests_issued_le: "requests_issued cfg env net \<le> maxPages cfg"
  using good_pages_le [of 1 cfg env net] by (simp add: requests_issued_def)

lemma fetch_log_requests:
  "map fst (snd (fetchPullRequests cfg env net st)) =
     map (build_request cfg env) [1..<Suc (requests_issued cfg env net)]"
proof -
  have "map (build_request cfg env) [Suc 0..<Suc n] = map (\<lambda>i. build_request cfg env (Suc i)) [0..<n]" for n
    by (simp only: map_Suc_upt [symmetric] map_map o_def)
  then show ?thesis by (simp add: fetch_log o_def del: upt_Suc)
qed

lemma stop_page_records:
  "Suc (good_pages cfg env net 1) \<le> maxPages cfg \<Longrightarrow>
   page_records cfg env net (Suc (good_pages cfg env net 1)) = []"
  using good_pages_stop [of 1 cfg env net]
  by (auto simp: nonempty_page_def page_records_def split: sum.splits)

lemma accumulated_Suc:
  "accumulated cfg env net (Suc k) = accumulated cfg env net k @ page_records cfg env net (Suc k)"
  by (simp add: accumulated_def)

lemma accumulated_requests:
  "accumulated cfg env net (requests_issued cfg env net) =
   accumulated cfg env net (good_pages cfg env net 1)"
proof (cases "Suc (good_pages cfg env net 1) \<le> maxPages cfg")
  case True
  show ?thesis
    by (simp only: requests_issued_def True if_True accumulated_Suc stop_page_records [OF True]
        append_Nil2)
next
  case False
  show ?thesis by (simp only: requests_issued_def False if_False)
qed

lemma accumulated_prefix:
  "k \<le> i \<Longrightarrow> prefix (accumulated cfg env net k) (accumulated cfg env net i)"
proof (induction i)
  case 0
  then show ?case by simp
next
  case (Suc i)
  show ?case
  proof (cases "k = Suc i")
    case True
    then show ?thesis by simp
  next
    case False
    with Suc.prems have "k \<le> i" by simp
    then have "prefix (accumulated cfg env net k) (accumulated cfg env net i)" by (rule Suc.IH)
    then show ?thesis by (simp add: accumulated_Suc)
  qed
qed

lemma snapshot_allPrs:
  "0 < i \<Longrightarrow> allPrs (snapshot cfg env net 1 [] st i) = accumulated cfg env net i"
  by (simp add: snapshot_def accumulated_def del: upt_Suc)


lemma fetch_final_error:
  assumes "Suc (good_pages cfg env net 1) \<le> maxPages cfg"
    and "fetch_page cfg env net (Suc (good_pages cfg env net 1)) = Inl err"
  shows "fst (fetchPullRequests cfg env net st) =
     (snapshot cfg env net 1 [] (st\<lparr>loading := True, error := None\<rparr>) (good_pages cfg env net 1))
       \<lparr>error := Some (message err), loading := False\<rparr>"
  using assms by (simp add: fetchPullRequests_closed Let_def)

lemma fetch_final_success:
  assumes "Suc (good_pages cfg env net 1) \<le> maxPages cfg \<Longrightarrow>
     \<exists>data. fetch_page cfg env net (Suc (good_pages cfg env net 1)) = Inr data"
  shows "fst (fetchPullRequests cfg env net st) =
     st\<lparr>loading := False, error := None,
        allPrs := accumulated cfg env net (good_pages cfg env net 1)\<rparr>"
  using assms by (auto simp: fetchPullRequests_closed Let_def snapshot_def)

lemma fetch_final_cases:
  obtains (error) err where "Suc (good_pages cfg env net 1) \<le> maxPages cfg"
      and "fetch_page cfg env net (Suc (good_pages cfg env net 1)) = Inl err"
      and "fst (fetchPullRequests cfg env net st) =
        (snapshot cfg env net 1 [] (st\<lparr>loading := True, error := None\<rparr>) (good_pages cfg env net 1))
          \<lparr>error := Some (message err), loading := False\<rparr>"
  | (success) "fst (fetchPullRequests cfg env net st) =
       st\<lparr>loading := False, error := None,
          allPrs := accumulated cfg env net (good_pages cfg env net 1)\<rparr>"
      and "Suc (good_pages cfg env net 1) \<le> maxPages cfg \<Longrightarrow>
        fetch_page cfg env net (Suc (good_pages cfg env net 1)) = Inr []"
proof (cases "Suc (good_pages cfg env net 1) \<le> maxPages cfg")
  case True
  then have "\<not> nonempty_page cfg env net (Suc (good_pages cfg env net 1))"
    using good_pages_stop [of 1 cfg env net] by simp
  then consider err where "fetch_page cfg env net (Suc (good_pages cfg env net 1)) = Inl err"
    | "fetch_page cfg env net (Suc (good_pages cfg env net 1)) = Inr []"
    using not_nonempty_cases by blast
  then show ?thesis
  proof cases
    case 1
    then show ?thesis using True fetch_final_error error by blast
  next
    case 2
    then show ?thesis using fetch_final_success [of cfg env net st] success by simp
  qed
next
  case False
  then show ?thesis using fetch_final_success [of cfg env net st] success by simp
qed


lemma good_pages_from_1:
  assumes "\<And>j. 1 \<le> j \<Longrightarrow> j \<le> n \<Longrightarrow> nonempty_page cfg env net j"
    and "Suc n \<le> maxPages cfg \<Longrightarrow> \<not> nonempty_page cfg env net (Suc n)"
    and "n \<le> maxPages cfg"
  shows "good_pages cfg env net 1 = n"
  using assms by (intro good_pages_eq) simp_all

lemma fetch_ends_empty:
  assumes k: "1 \<le> k" "k \<le> maxPages cfg"
    and good: "\<And>j. 1 \<le> j \<Longrightarrow> j < k \<Longrightarrow> nonempty_page cfg env net j"
    and empty: "fetch_page cfg env net k = Inr []"
  shows "fst (fetchPullRequests cfg env net st) =
           st\<lparr>loading := False, error := None, allPrs := accumulated cfg env net (k - 1)\<rparr>"
    and "requests_issued cfg env net = k"
proof -
  have ne: "\<not> nonempty_page cfg env net k" by (simp add: nonempty_page_def empty)
  have g: "good_pages cfg env net 1 = k - 1"
    using k good ne by (intro good_pages_from_1) simp_all
  have s: "Suc (k - 1) = k" using k by simp
  show "requests_issued cfg env net = k"
    unfolding requests_issued_def g s using k by simp
  show "fst (fetchPullRequests cfg env net st) =
           st\<lparr>loading := False, error := None, allPrs := accumulated cfg env net (k - 1)\<rparr>"
    using fetch_final_success [of cfg env net st, unfolded g s] empty by simp
qed

lemma fetch_ends_cap:
  assumes good: "\<And>j. 1 \<le> j \<Longrightarrow> j \<le> maxPages cfg \<Longrightarrow> nonempty_page cfg env net j"
  shows "fst (fetchPullRequests cfg env net st) =
           st\<lparr>loading := False, error := None,
              allPrs := accumulated cfg env net (maxPages cfg)\<rparr>"
    and "requests_issued cfg env net = maxPages cfg"
proof -
  have g: "good_pages cfg env net 1 = maxPages cfg"
    using good by (intro good_pages_from_1) simp_all
  show "requests_issued cfg env net = maxPages cfg"
    unfolding requests_issued_def g by simp
  show "fst (fetchPullRequests cfg env net st) =
           st\<lparr>loading := False, error := None,
              allPrs := accumulated cfg env net (maxPages cfg)\<rparr>"
    using fetch_final_success [of cfg env net st, unfolded g] by simp
qed

lemma fetch_ends_error:
  assumes k: "1 \<le> k" "k \<le> maxPages cfg"
    and good: "\<And>j. 1 \<le> j \<Longrightarrow> j < k \<Longrightarrow> nonempty_page cfg env net j"
    and err: "fetch_page cfg env net k = Inl err"
  shows "fst (fetchPullRequests cfg env net st) =
           (snapshot cfg env net 1 [] (st\<lparr>loading := True, error := None\<rparr>) (k - 1))
             \<lparr>error := Some (message err), loading := False\<rparr>"
    and "requests_issued cfg env net = k"
proof -
  have ne: "\<not> nonempty_page cfg env net k" by (simp add: nonempty_page_def err)
  have g: "good_pages cfg env net 1 = k - 1"
    using k good ne by (intro good_pages_from_1) simp_all
  have s: "Suc (k - 1) = k" using k by simp
  show "requests_issued cfg env net = k"
    unfolding requests_issued_def g s using k by simp
  show "fst (fetchPullRequests cfg env net st) =
           (snapshot cfg env net 1 [] (st\<lparr>loading := True, error := None\<rparr>) (k - 1))
             \<lparr>error := Some (message err), loading := False\<rparr>"
    using fetch_final_error [of cfg env net err st, unfolded g s] k err by simp
qed

lemma fetch_success_allPrs:
  assumes "error (fst (fetchPullRequests cfg env net st)) = None"
  shows "allPrs (fst (fetchPullRequests cfg env net st)) =
           accumulated cfg env net (requests_issued cfg env net)"
proof (cases rule: fetch_final_cases [where cfg = cfg and env = env and net = net and st = st])
  case (error err)
  with assms show ?thesis by simp
next
  case success
  then show ?thesis by (simp add: accumulated_requests)
qed

lemma accumulated_two:
  assumes "fetch_page cfg env net 1 = Inr p1" and "fetch_page cfg env net 2 = Inr p2"
  shows "accumulated cfg env net 2 = p1 @ p2"
proof -
  have "[1..<Suc 2] = [1, 2::nat]" by (simp add: upt_rec)
  then show ?thesis using assms by (simp add: accumulated_def page_records_def)
qed

lemma fetch_error_at_requested:
  assumes k: "1 \<le> k" "k \<le> requests_issued cfg env net"
    and err: "fetch_page cfg env net k = Inl err"
  shows "fst (fetchPullRequests cfg env net st) =
           (snapshot cfg env net 1 [] (st\<lparr>loading := True, error := None\<rparr>) (k - 1))
             \<lparr>error := Some (message err), loading := False\<rparr>"
    and "requests_issued cfg env net = k"
proof -
  let ?g = "good_pages cfg env net 1"
  have ne: "\<not> nonempty_page cfg env net k" by (simp add: nonempty_page_def err)
  have "\<not> k < 1 + ?g" using good_pages_all [of 1 k cfg env net] k(1) ne by blast
  moreover have "requests_issued cfg env net \<le> Suc ?g" by (simp add: requests_issued_def)
  ultimately have kg: "k = Suc ?g" using k(2) by simp
  have km: "k \<le> maxPages cfg" using k(2) requests_issued_le [of cfg env net] by simp
  have good: "nonempty_page cfg env net j" if "1 \<le> j" "j < k" for j
    using that kg by (intro good_pages_all [of 1 j cfg env net]) simp_all
  show "fst (fetchPullRequests cfg env net st) =
           (snapshot cfg env net 1 [] (st\<lparr>loading := True, error := None\<rparr>) (k - 1))
             \<lparr>error := Some (message err), loading := False\<rparr>"
    using k(1) km good err by (rule fetch_ends_error(1))
  show "requests_issued cfg env net = k"
    using k(1) km good err by (rule fetch_ends_error(2))
qed

lemma fetch_page_not_ok:
  "net (build_request cfg env k) = Inr r \<Longrightarrow> \<not> ok r \<Longrightarrow>
   fetch_page cfg env net k = Inl (Error (api_error r))"
  by (simp add: fetch_page_def)

lemma snapshot_allPrs0:
  "0 < i \<Longrightarrow> allPrs (snapshot cfg env net (Suc 0) [] st i) = accumulated cfg env net i"
  using snapshot_allPrs [of i cfg env net st] by simp

lemma fetch_log_nth:
  assumes "i < requests_issued cfg env net"
  shows "snd (fetchPullRequests cfg env net st) ! i =
     (build_request cfg env (Suc i),
      snapshot cfg env net 1 [] (st\<lparr>loading := True, error := None\<rparr>) i)"
  using assms by (simp add: fetch_log)

lemma requested_before_last_good:
  assumes "1 \<le> k" and "k \<le> i" and "i < requests_issued cfg env net"
  shows "nonempty_page cfg env net k"
proof -
  have "requests_issued cfg env net \<le> Suc (good_pages cfg env net 1)"
    by (simp add: requests_issued_def)
  with assms have "k < 1 + good_pages cfg env net 1" by simp
  with assms(1) show ?thesis by (rule good_pages_all)
qed

lemma fetch_final_prefix:
  assumes "k \<le> requests_issued cfg env net"
  shows "prefix (accumulated cfg env net k) (allPrs (fst (fetchPullRequests cfg env net st)))"
proof (cases rule: fetch_final_cases [where cfg = cfg and env = env and net = net and st = st])
  case (error err)
  let ?g = "good_pages cfg env net 1"
  show ?thesis
  proof (cases "?g = 0")
    case True
    with error(1) assms have "k \<le> 1" by (simp add: requests_issued_def)
    moreover have "accumulated cfg env net 1 = []"
      using error(2) True by (simp add: accumulated_def page_records_def)
    moreover have "accumulated cfg env net 0 = []" by (simp add: accumulated_def)
    ultimately have "accumulated cfg env net k = []"
      by (cases "k = 0") (simp_all add: le_Suc_eq)
    then show ?thesis by simp
  next
    case False
    then have "allPrs (fst (fetchPullRequests cfg env net st)) = accumulated cfg env net ?g"
      by (simp add: error(3) snapshot_allPrs0)
    also have "\<dots> = accumulated cfg env net (requests_issued cfg env net)"
      by (simp only: accumulated_requests)
    finally show ?thesis using assms by (simp add: accumulated_prefix)
  qed
next
  case success
  have "allPrs (fst (fetchPullRequests cfg env net st)) =
      accumulated cfg env net (requests_issued cfg env net)"
    by (simp add: success(1) accumulated_requests)
  then show ?thesis using assms by (simp add: accumulated_prefix)
qed

lemma fetch_error_cases:
  assumes "error (fst (fetchPullRequests cfg env net st)) \<noteq> None"
  obtains err where "Suc (good_pages cfg env net 1) \<le> maxPages cfg"
    and "fetch_page cfg env net (Suc (good_pages cfg env net 1)) = Inl err"
    and "fst (fetchPullRequests cfg env net st) =
        (snapshot cfg env net 1 [] (st\<lparr>loading := True, error := None\<rparr>) (good_pages cfg env net 1))
          \<lparr>error := Some (message err), loading := False\<rparr>"
    and "requests_issued cfg env net = Suc (good_pages cfg env net 1)"
proof (cases rule: fetch_final_cases [where cfg = cfg and env = env and net = net and st = st])
  case (error err)
  then show ?thesis using that by (simp add: requests_issued_def)
next
  case success
  with assms show ?thesis by simp
qed

lemma build_headers_token:
  "GITHUB_TOKEN env = Some token \<Longrightarrow> token \<noteq> [] \<Longrightarrow>
   build_headers env =
     [(str ''Accept'', str ''application/vnd.github.v3+json''),
      (str ''Authorization'', str ''token '' @ token)]"
  by (simp add: build_headers_def)

lemma build_headers_no_token:
  "GITHUB_TOKEN env = None \<or> GITHUB_TOKEN env = Some [] \<Longrightarrow>
   build_headers env = [(str ''Accept'', str ''application/vnd.github.v3+json'')]"
  by (auto simp: build_headers_def)

lemma accept_not_authorization: "str ''Accept'' \<noteq> str ''Authorization''"
  by (simp add: str_def)

lemma fetch_log_headers:
  "rq \<in> set (map fst (snd (fetchPullRequests cfg env net st))) \<Longrightarrow>
   headers rq = build_headers env"
  by (auto simp: fetch_log_requests build_request_def simp del: upt_Suc)

lemma fetch_page_Inl_cases:
  assumes "fetch_page cfg env net k = Inl err"
  shows "net (build_request cfg env k) = Inl err
    \<or> (\<exists>r. net (build_request cfg env k) = Inr r \<and> \<not> ok r \<and> err = Error (api_error r))
    \<or> (\<exists>r. net (build_request cfg env k) = Inr r \<and> ok r \<and> json r = Inl err)"
  using assms by (auto simp: fetch_page_def split: sum.splits if_splits)

lemma fetch_page_answered:
  "net (build_request cfg env k) = Inr r \<Longrightarrow> ok r \<Longrightarrow> json r = Inr data \<Longrightarrow>
   fetch_page cfg env net k = Inr data"
  by (simp add: fetch_page_def)

lemma fetch_log_last:
  assumes "1 \<le> requests_issued cfg env net"
  shows "fst (last (snd (fetchPullRequests cfg env net st))) =
     build_request cfg env (requests_issued cfg env net)"
proof -
  let ?n = "requests_issued cfg env net"
  have ne: "[0..<?n] \<noteq> []" using assms by simp
  have "last [0..<?n] = ?n - 1" using assms by (simp add: last_upt)
  then show ?thesis using assms ne by (simp add: fetch_log last_map)
qed

lemma build_request_absent:
  "GITHUB_TOKEN env = None \<or> GITHUB_TOKEN env = Some [] \<Longrightarrow>
   build_request cfg env k =
     \<lparr> url = build_url cfg k,
       headers = [(str ''Accept'', str ''application/vnd.github.v3+json'')] \<rparr>"
  by (simp add: build_request_def build_headers_no_token)


section \<open>Basic facts: the concrete inputs\<close>

lemma config_maxPages: "maxPages config = 5"
  by (simp add: config_def)

lemma config_urls:
  "build_url config 2 \<noteq> build_url config 1"
  "build_url config 3 \<noteq> build_url config 1"
  "build_url config 3 \<noteq> build_url config 2"
  by (simp_all add: build_url_def config_def str_def toString.simps)

lemma mock_100_100_0_pages:
  "fetch_page config env mock_100_100_0 1 = Inr (replicate 100 (test_pr 1 (str ''alice'')))"
  "fetch_page config env mock_100_100_0 2 = Inr (replicate 100 (test_pr 2 (str ''bob'')))"
  "fetch_page config env mock_100_100_0 3 = Inr []"
  using config_urls
  by (simp_all add: fetch_page_def build_request_def mock_100_100_0_def ok_response_def)

lemma mock_100_100_0_nonempty:
  "nonempty_page config env mock_100_100_0 1" "nonempty_page config env mock_100_100_0 2"
  using mock_100_100_0_pages(1,2) [of env] by (simp_all add: nonempty_page_def)

lemma mock_never_empty_pages: "nonempty_page cfg env mock_never_empty j"
  by (simp add: nonempty_page_def fetch_page_def mock_never_empty_def ok_response_def)

lemma mock_403_pages:
  "fetch_page config env mock_403_on_page_2 1 = Inr [test_pr 1 (str ''alice'')]"
  "mock_403_on_page_2 (build_request config env 2) = Inr forbidden_response"
  "\<not> ok forbidden_response"
  "nonempty_page config env mock_403_on_page_2 1"
  "fetch_page config env mock_403_on_page_2 2 = Inl (Error (api_error forbidden_response))"
  using config_urls
  by (simp_all add: nonempty_page_def fetch_page_def build_request_def mock_403_on_page_2_def
      ok_response_def forbidden_response_def)

lemma forbidden_message:
  "api_error forbidden_response = str ''GitHub API error: 403 Forbidden''"
  "toString (status forbidden_response) = str ''403''"
  by (simp_all add: api_error_def forbidden_response_def str_def toString.simps)

lemma net_down_pages:
  "fetch_page cfg env net_down k = Inl (Error (str ''Network request failed''))"
  "\<not> nonempty_page cfg env net_down k"
  by (simp_all add: nonempty_page_def fetch_page_def net_down_def)

lemma mock_403_accumulated:
  "accumulated config env mock_403_on_page_2 1 = [test_pr 1 (str ''alice'')]"
  "accumulated config env mock_403_on_page_2 2 = [test_pr 1 (str ''alice'')]"
  using mock_403_pages(1) [of env] mock_403_pages(5) [of env]
  by (simp_all add: accumulated_def page_records_def upt_rec numeral_2_eq_2)

lemma run_403:
  "fst (fetchPullRequests config env mock_403_on_page_2 st) =
     st\<lparr>loading := False, error := Some (str ''GitHub API error: 403 Forbidden''),
        allPrs := [test_pr 1 (str ''alice'')]\<rparr>"
  "requests_issued config env mock_403_on_page_2 = 2"
proof -
  have k: "(1::nat) \<le> 2" "2 \<le> maxPages config" by (simp_all add: config_maxPages)
  have good: "nonempty_page config env mock_403_on_page_2 j" if "1 \<le> j" "j < 2" for j
  proof -
    from that have "j = 1" by simp
    then show ?thesis using mock_403_pages(4) [of env] by simp
  qed
  note f = fetch_ends_error [OF k good mock_403_pages(5)]
  show "requests_issued config env mock_403_on_page_2 = 2" by (rule f(2))
  show "fst (fetchPullRequests config env mock_403_on_page_2 st) =
     st\<lparr>loading := False, error := Some (str ''GitHub API error: 403 Forbidden''),
        allPrs := [test_pr 1 (str ''alice'')]\<rparr>"
    using f(1) [of st] mock_403_pages(1) [of env]
    by (simp add: snapshot_def message_def forbidden_message page_records_def)
qed

lemma run_down:
  "fst (fetchPullRequests config env net_down st) =
     st\<lparr>loading := False, error := Some (str ''Network request failed'')\<rparr>"
  "requests_issued config env net_down = 1"
proof -
  have k: "(1::nat) \<le> 1" "1 \<le> maxPages config" by (simp_all add: config_maxPages)
  have good: "nonempty_page config env net_down j" if "1 \<le> j" "j < 1" for j
    using that by simp
  note f = fetch_ends_error [OF k good net_down_pages(1)]
  show "requests_issued config env net_down = 1" by (rule f(2))
  show "fst (fetchPullRequests config env net_down st) =
     st\<lparr>loading := False, error := Some (str ''Network request failed'')\<rparr>"
    using f(1) [of st] by (simp add: snapshot_def message_def)
qed


section \<open>The filter\<close>

text \<open>
  Claim C1. For every accumulated collection and every excluded-author set, \<open>filterPRs\<close>
  displays exactly the records whose author login is not in the set: the displayed list
  is the accumulated list with the excluded authors' records left out, so it has the
  same members in the same relative order (it is a subsequence of the accumulated
  list). Filtering the displayed list again with the same set changes nothing. The
  accumulated collection and the excluded-author set themselves are not touched.
\<close>

theorem filterPRs_exact:
  "prs (filterPRs st) =
     [r \<leftarrow> allPrs st. login (user r) \<notin> set (app_state.excludedAuthors st)]
   \<and> set (prs (filterPRs st)) =
       {r \<in> set (allPrs st). login (user r) \<notin> set (app_state.excludedAuthors st)}
   \<and> subseq (prs (filterPRs st)) (allPrs st)
   \<and> prs (filterPRs (st\<lparr>allPrs := prs (filterPRs st)\<rparr>)) = prs (filterPRs st)
   \<and> allPrs (filterPRs st) = allPrs st
   \<and> app_state.excludedAuthors (filterPRs st) = app_state.excludedAuthors st"
  by (simp add: filterPRs_def includes_arr_set)

theorem filterPRs_exact_witness:
  "prs (filterPRs test_state) = [test_pr 1 (str ''alice''), test_pr 3 (str ''alice'')]"
proof -
  have "prs (filterPRs test_state) =
      [r \<leftarrow> allPrs test_state. login (user r) \<notin> set (app_state.excludedAuthors test_state)]"
    using filterPRs_exact [of test_state] by (rule conjunct1)
  also have "\<dots> = [test_pr 1 (str ''alice''), test_pr 3 (str ''alice'')]"
    by (simp add: test_state_def test_pr_def str_def)
  finally show ?thesis .
qed


section \<open>The excluded-author editor\<close>

text \<open>
  Claim C4. \<open>add s\<close> works on the trimmed input: \<open>trim s\<close> is \<open>s\<close> without a leading and a
  trailing run of whitespace, and it neither starts nor ends with whitespace. When the
  trimmed value is empty or already in the set (equality of strings, so case matters),
  the set stays as it is; otherwise the trimmed value is appended at the end. Hence
  \<open>add s\<close> and \<open>add (trim s)\<close> leave the same set, and so do \<open>add "  alice  "\<close> and
  \<open>add "alice"\<close>.
\<close>

theorem add_trims_then_appends:
  "app_state.excludedAuthors (add s st) =
     (if trim s = [] \<or> trim s \<in> set (app_state.excludedAuthors st)
      then app_state.excludedAuthors st
      else app_state.excludedAuthors st @ [trim s])
   \<and> (\<exists>l r. s = l @ trim s @ r \<and> list_all isWhiteSpace l \<and> list_all isWhiteSpace r)
   \<and> (trim s \<noteq> [] \<longrightarrow> \<not> isWhiteSpace (hd (trim s)) \<and> \<not> isWhiteSpace (last (trim s)))
   \<and> app_state.excludedAuthors (add s st) = app_state.excludedAuthors (add (trim s) st)
   \<and> app_state.excludedAuthors (add (str ''  alice  '') st) =
       app_state.excludedAuthors (add (str ''alice'') st)"
proof -
  have 2: "app_state.excludedAuthors (add s st) = app_state.excludedAuthors (add (trim s) st)"
    by (simp only: add_excluded trim_idem)
  have "trim (str ''alice'') = str ''alice''"
    by (simp add: trim_def str_def isWhiteSpace_def)
  then have 3: "app_state.excludedAuthors (add (str ''  alice  '') st) =
       app_state.excludedAuthors (add (str ''alice'') st)"
    by (simp only: add_excluded trim_alice)
  show ?thesis
    using add_excluded [of s st] 2 3 trim_decomp [of s] trim_hd [of s] trim_last [of s]
    by blast
qed

theorem add_trims_then_appends_witness:
  "app_state.excludedAuthors (add (str ''  alice  '') test_state) =
     [str ''bob'', str ''carol'', str ''alice'']
   \<and> app_state.excludedAuthors (add (str ''alice'') test_state) =
     [str ''bob'', str ''carol'', str ''alice'']
   \<and> app_state.excludedAuthors (add (str '' bob'') test_state) = [str ''bob'', str ''carol'']
   \<and> app_state.excludedAuthors (add (str ''Bob'') test_state) =
     [str ''bob'', str ''carol'', str ''Bob'']
   \<and> app_state.excludedAuthors (add (str ''   '') test_state) = [str ''bob'', str ''carol'']
   \<and> \<not> isWhiteSpace (hd (str ''alice'')) \<and> \<not> isWhiteSpace (last (str ''alice''))"
proof -
  have t: "trim (str ''  alice  '') = str ''alice''" "trim (str ''alice'') = str ''alice''"
    "trim (str '' bob'') = str ''bob''" "trim (str ''Bob'') = str ''Bob''"
    "trim (str ''   '') = []"
    by (simp_all add: trim_def str_def isWhiteSpace_def)
  have e: "app_state.excludedAuthors test_state = [str ''bob'', str ''carol'']"
    by (simp add: test_state_def)
  have n: "str ''alice'' \<noteq> []" "str ''alice'' \<noteq> str ''bob''" "str ''alice'' \<noteq> str ''carol''"
    "str ''Bob'' \<noteq> []" "str ''Bob'' \<noteq> str ''bob''" "str ''Bob'' \<noteq> str ''carol''"
    by (simp_all add: str_def)
  show ?thesis
    using add_trims_then_appends [of "str ''  alice  ''" test_state]
      add_trims_then_appends [of "str ''alice''" test_state]
      add_trims_then_appends [of "str '' bob''" test_state]
      add_trims_then_appends [of "str ''Bob''" test_state]
      add_trims_then_appends [of "str ''   ''" test_state]
    by (simp add: t e n)
qed

text \<open>
  Claim C5. \<open>remove s\<close> keeps exactly the entries different from \<open>s\<close>, in their order: \<open>s\<close>
  is gone, every other entry stays, and the result is a subsequence of the set before.
  When \<open>s\<close> is not in the set, the state is unchanged. In a set without duplicates the
  one entry equal to \<open>s\<close> is what is taken out.
\<close>

theorem remove_exact_entry:
  "app_state.excludedAuthors (removeExcludedAuthor s st) =
     [a \<leftarrow> app_state.excludedAuthors st. a \<noteq> s]
   \<and> s \<notin> set (app_state.excludedAuthors (removeExcludedAuthor s st))
   \<and> set (app_state.excludedAuthors (removeExcludedAuthor s st)) =
       set (app_state.excludedAuthors st) - {s}
   \<and> subseq (app_state.excludedAuthors (removeExcludedAuthor s st))
       (app_state.excludedAuthors st)
   \<and> (s \<notin> set (app_state.excludedAuthors st) \<longrightarrow> removeExcludedAuthor s st = st)
   \<and> (distinct (app_state.excludedAuthors st) \<longrightarrow>
        app_state.excludedAuthors (removeExcludedAuthor s st) =
          remove1 s (app_state.excludedAuthors st))"
proof -
  have "s \<notin> set E \<Longrightarrow> [a \<leftarrow> E. a \<noteq> s] = E" for E :: "js_string list"
    by (induction E) auto
  moreover have "distinct E \<Longrightarrow> [a \<leftarrow> E. a \<noteq> s] = remove1 s E" for E :: "js_string list"
    by (simp add: distinct_remove1_removeAll removeAll_filter_not_eq) metis
  ultimately show ?thesis
    by (auto simp: removeExcludedAuthor_def)
qed

theorem remove_exact_entry_witness:
  "app_state.excludedAuthors (removeExcludedAuthor (str ''bob'') test_state) = [str ''carol'']
   \<and> removeExcludedAuthor (str ''dave'') test_state = test_state"
proof -
  have "str ''dave'' \<notin> set (app_state.excludedAuthors test_state)"
    "distinct (app_state.excludedAuthors test_state)"
    by (simp_all add: test_state_def str_def)
  then show ?thesis
    using remove_exact_entry [of "str ''bob''" test_state]
      remove_exact_entry [of "str ''dave''" test_state]
    by (simp add: test_state_def str_def)
qed

text \<open>
  Claim C10. For a login \<open>L\<close> that is its own trim, is not empty and is not in the set,
  \<open>add L\<close> followed by \<open>remove L\<close> gives back the excluded-author set as it was.
\<close>

theorem add_then_remove_fresh:
  assumes "trim L = L" and "L \<noteq> []" and "L \<notin> set (app_state.excludedAuthors st)"
  shows "app_state.excludedAuthors (removeExcludedAuthor L (add L st)) =
           app_state.excludedAuthors st"
proof -
  have "[a \<leftarrow> E. a \<noteq> L] = E" if "L \<notin> set E" for E
    using that by (induction E) auto
  with assms show ?thesis
    by (simp add: remove_excluded add_excluded)
qed

theorem add_then_remove_fresh_witness:
  "trim (str ''alice'') = str ''alice'' \<and> str ''alice'' \<noteq> []
   \<and> str ''alice'' \<notin> set (app_state.excludedAuthors test_state)
   \<and> app_state.excludedAuthors
        (removeExcludedAuthor (str ''alice'') (add (str ''alice'') test_state)) =
       [str ''bob'', str ''carol'']"
proof -
  have h: "trim (str ''alice'') = str ''alice''" "str ''alice'' \<noteq> []"
    "str ''alice'' \<notin> set (app_state.excludedAuthors test_state)"
    by (simp_all add: trim_def str_def isWhiteSpace_def test_state_def)
  show ?thesis
    using h add_then_remove_fresh [OF h] by (simp add: test_state_def)
qed

text \<open>
  Claim C9. The configured default list has no duplicates and is the initial
  excluded-author set. Every sequence of \<open>add\<close> and \<open>remove\<close> keeps the entries pairwise
  distinct, from the default and from any set without duplicates. Order: the entries
  that no \<open>remove\<close> of the sequence names stay where they were, in their order and ahead
  of everything added later; and at each single step the entries that survive keep
  their order and come before the entry the step adds.
\<close>

theorem excluded_set_unique_ordered:
  "distinct (config.excludedAuthors config)
   \<and> app_state.excludedAuthors initial_state = config.excludedAuthors config
   \<and> distinct (app_state.excludedAuthors (apply_edits es initial_state))
   \<and> (distinct (app_state.excludedAuthors st) \<longrightarrow>
        distinct (app_state.excludedAuthors (apply_edits es st)))
   \<and> prefix [x \<leftarrow> app_state.excludedAuthors st. x \<notin> removed es]
        [x \<leftarrow> app_state.excludedAuthors (apply_edits es st). x \<notin> removed es]
   \<and> app_state.excludedAuthors (apply_edit st e) =
       [x \<leftarrow> app_state.excludedAuthors st.
          x \<in> set (app_state.excludedAuthors (apply_edit st e))] @
       [x \<leftarrow> app_state.excludedAuthors (apply_edit st e).
          x \<notin> set (app_state.excludedAuthors st)]"
proof -
  have i: "app_state.excludedAuthors initial_state = config.excludedAuthors config"
    by (simp add: initial_state_def)
  have "distinct (app_state.excludedAuthors (apply_edits es initial_state))"
    by (rule apply_edits_distinct) (simp only: i config_distinct)
  moreover have "prefix [x \<leftarrow> app_state.excludedAuthors st. x \<notin> removed es]
        [x \<leftarrow> app_state.excludedAuthors (apply_edits es st). x \<notin> removed es]"
    by (rule apply_edits_keeps_order) simp
  ultimately show ?thesis
    using i config_distinct apply_edits_distinct [of st es] apply_edit_survivors [of st e]
    by blast
qed

theorem excluded_set_unique_ordered_witness:
  "distinct (app_state.excludedAuthors test_state)
   \<and> app_state.excludedAuthors (apply_edits test_edits test_state) =
       [str ''carol'', str ''alice'', str ''bob'']
   \<and> distinct (app_state.excludedAuthors (apply_edits test_edits test_state))
   \<and> prefix [str ''carol''] [str ''carol'', str ''alice'']"
proof -
  have d: "distinct (app_state.excludedAuthors test_state)"
    by (simp add: test_state_def str_def)
  have v: "app_state.excludedAuthors (apply_edits test_edits test_state) =
       [str ''carol'', str ''alice'', str ''bob'']"
    by (simp add: apply_edits_def test_edits_def test_state_def add_excluded remove_excluded
        trim_def isWhiteSpace_def str_def)
  have r: "removed test_edits = {str ''bob''}"
    by (simp add: test_edits_def)
  note t = excluded_set_unique_ordered [of test_edits test_state "Add []"]
  from t d have "distinct (app_state.excludedAuthors (apply_edits test_edits test_state))"
    by blast
  moreover from t have
    "prefix [x \<leftarrow> app_state.excludedAuthors test_state. x \<notin> removed test_edits]
       [x \<leftarrow> app_state.excludedAuthors (apply_edits test_edits test_state).
          x \<notin> removed test_edits]"
    by blast
  then have "prefix [str ''carol''] [str ''carol'', str ''alice'']"
    unfolding v r by (simp add: test_state_def str_def)
  ultimately show ?thesis using d v by blast
qed


section \<open>The fetcher\<close>

text \<open>
  Claim C2. For every endpoint, \<open>fetchPullRequests\<close> issues at most \<open>maxPages\<close> requests,
  and they are the requests for pages 1, 2, 3, ... in this order. When it ends without
  error, the accumulated collection is the concatenation, in page order, of the pages it
  fetched (an empty page adds nothing). If pages \<open>1\<close> to \<open>k - 1\<close> are not empty and page
  \<open>k\<close>, within the cap, is empty, it issues exactly \<open>k\<close> requests and ends without error,
  not loading, with the records of pages \<open>1\<close> to \<open>k - 1\<close>. If every page up to the cap is
  not empty, it issues exactly \<open>maxPages\<close> requests and ends without error with the
  records of all of them. In particular: pages of sizes 100, 100 and 0 give three
  requests and 200 accumulated records, and with \<open>maxPages = 5\<close> an endpoint that answers
  every page with a non-empty collection receives exactly 5 requests.
\<close>

theorem fetch_pagination:
  fixes cfg env net st
  defines "R \<equiv> fetchPullRequests cfg env net st"
  shows
  "length (snd R) \<le> maxPages cfg
   \<and> map fst (snd R) = map (build_request cfg env) [1..<Suc (length (snd R))]
   \<and> (error (fst R) = None \<longrightarrow>
        allPrs (fst R) = accumulated cfg env net (length (snd R)))
   \<and> (1 \<le> k \<and> k \<le> maxPages cfg
        \<and> (\<forall>j. 1 \<le> j \<and> j < k \<longrightarrow> nonempty_page cfg env net j)
        \<and> fetch_page cfg env net k = Inr [] \<longrightarrow>
        length (snd R) = k \<and> error (fst R) = None \<and> loading (fst R) = False
        \<and> allPrs (fst R) = accumulated cfg env net (k - 1))
   \<and> ((\<forall>j. 1 \<le> j \<and> j \<le> maxPages cfg \<longrightarrow> nonempty_page cfg env net j) \<longrightarrow>
        length (snd R) = maxPages cfg \<and> error (fst R) = None \<and> loading (fst R) = False
        \<and> allPrs (fst R) = accumulated cfg env net (maxPages cfg))
   \<and> (3 \<le> maxPages cfg
        \<and> fetch_page cfg env net 1 = Inr first_page \<and> length first_page = 100
        \<and> fetch_page cfg env net 2 = Inr second_page \<and> length second_page = 100
        \<and> fetch_page cfg env net 3 = Inr [] \<longrightarrow>
        length (snd R) = 3 \<and> error (fst R) = None
        \<and> allPrs (fst R) = first_page @ second_page \<and> length (allPrs (fst R)) = 200)
   \<and> (maxPages cfg = 5 \<and> (\<forall>j. nonempty_page cfg env net j) \<longrightarrow> length (snd R) = 5)"
proof -
  have len: "length (snd R) = requests_issued cfg env net"
    unfolding R_def by (rule fetch_log_length)
  have A: "length (snd R) \<le> maxPages cfg"
    unfolding len by (rule requests_issued_le)
  have B: "map fst (snd R) = map (build_request cfg env) [1..<Suc (length (snd R))]"
    unfolding len unfolding R_def by (rule fetch_log_requests)
  have C: "error (fst R) = None \<longrightarrow> allPrs (fst R) = accumulated cfg env net (length (snd R))"
    unfolding len unfolding R_def using fetch_success_allPrs by blast
  have D: "length (snd R) = k \<and> error (fst R) = None \<and> loading (fst R) = False
        \<and> allPrs (fst R) = accumulated cfg env net (k - 1)"
    if "1 \<le> k" "k \<le> maxPages cfg" "\<forall>j. 1 \<le> j \<and> j < k \<longrightarrow> nonempty_page cfg env net j"
      "fetch_page cfg env net k = Inr []" for k
  proof -
    have good: "\<And>j. 1 \<le> j \<Longrightarrow> j < k \<Longrightarrow> nonempty_page cfg env net j"
      using that(3) by blast
    show ?thesis
      unfolding len unfolding R_def
      using fetch_ends_empty [OF that(1,2) good that(4)] by simp
  qed
  have E: "length (snd R) = maxPages cfg \<and> error (fst R) = None \<and> loading (fst R) = False
        \<and> allPrs (fst R) = accumulated cfg env net (maxPages cfg)"
    if "\<forall>j. 1 \<le> j \<and> j \<le> maxPages cfg \<longrightarrow> nonempty_page cfg env net j"
  proof -
    have good: "\<And>j. 1 \<le> j \<Longrightarrow> j \<le> maxPages cfg \<Longrightarrow> nonempty_page cfg env net j"
      using that by blast
    show ?thesis
      unfolding len unfolding R_def
      using fetch_ends_cap [OF good] by simp
  qed
  have F: "length (snd R) = 3 \<and> error (fst R) = None
        \<and> allPrs (fst R) = first_page @ second_page \<and> length (allPrs (fst R)) = 200"
    if h: "3 \<le> maxPages cfg" "fetch_page cfg env net 1 = Inr first_page" "length first_page = 100"
      "fetch_page cfg env net 2 = Inr second_page" "length second_page = 100" "fetch_page cfg env net 3 = Inr []"
  proof -
    have n: "nonempty_page cfg env net j" if "1 \<le> j" "j < 3" for j
    proof -
      from that have "j = 1 \<or> j = 2" by auto
      then show ?thesis using h by (auto simp: nonempty_page_def)
    qed
    have "length (snd R) = 3 \<and> error (fst R) = None \<and> loading (fst R) = False
        \<and> allPrs (fst R) = accumulated cfg env net (3 - 1)"
      using h n by (intro D) simp_all
    moreover have "accumulated cfg env net (3 - 1) = first_page @ second_page"
      using accumulated_two [OF h(2) h(4)] by simp
    ultimately show ?thesis using h by simp
  qed
  have G: "length (snd R) = 5" if "maxPages cfg = 5" "\<forall>j. nonempty_page cfg env net j"
    using E that by simp
  show ?thesis using A B C D [of k] E F G by blast
qed

theorem fetch_pagination_witness:
  "length (snd (fetchPullRequests config no_token mock_100_100_0 initial_state)) = 3
   \<and> length (allPrs (fst (fetchPullRequests config no_token mock_100_100_0 initial_state))) = 200
   \<and> allPrs (fst (fetchPullRequests config no_token mock_100_100_0 initial_state)) =
       replicate 100 (test_pr 1 (str ''alice'')) @ replicate 100 (test_pr 2 (str ''bob''))
   \<and> error (fst (fetchPullRequests config no_token mock_100_100_0 initial_state)) = None
   \<and> loading (fst (fetchPullRequests config no_token mock_100_100_0 initial_state)) = False
   \<and> length (snd (fetchPullRequests config no_token mock_never_empty initial_state)) = 5
   \<and> error (fst (fetchPullRequests config no_token mock_never_empty initial_state)) = None"
proof -
  let ?A = "fetchPullRequests config no_token mock_100_100_0 initial_state"
  let ?B = "fetchPullRequests config no_token mock_never_empty initial_state"
  have h: "3 \<le> maxPages config
      \<and> fetch_page config no_token mock_100_100_0 1 = Inr (replicate 100 (test_pr 1 (str ''alice'')))
      \<and> length (replicate 100 (test_pr 1 (str ''alice''))) = 100
      \<and> fetch_page config no_token mock_100_100_0 2 = Inr (replicate 100 (test_pr 2 (str ''bob'')))
      \<and> length (replicate 100 (test_pr 2 (str ''bob''))) = 100
      \<and> fetch_page config no_token mock_100_100_0 3 = Inr []"
    using mock_100_100_0_pages [of no_token] by (simp add: config_maxPages)
  have "nonempty_page config no_token mock_100_100_0 j" if "1 \<le> j \<and> j < 3" for j
  proof -
    from that have "j = 1 \<or> j = 2" by auto
    then show ?thesis using mock_100_100_0_nonempty [of no_token] by auto
  qed
  then have e: "(1::nat) \<le> 3 \<and> 3 \<le> maxPages config
      \<and> (\<forall>j. 1 \<le> j \<and> j < 3 \<longrightarrow> nonempty_page config no_token mock_100_100_0 j)
      \<and> fetch_page config no_token mock_100_100_0 3 = Inr []"
    using h by simp
  have n: "maxPages config = 5 \<and> (\<forall>j. nonempty_page config no_token mock_never_empty j)"
    by (simp add: config_maxPages mock_never_empty_pages)
  then have c: "\<forall>j. 1 \<le> j \<and> j \<le> maxPages config \<longrightarrow>
      nonempty_page config no_token mock_never_empty j"
    by simp
  note a = fetch_pagination [where cfg = config and env = no_token and net = mock_100_100_0
      and st = initial_state and k = 3
      and first_page = "replicate 100 (test_pr 1 (str ''alice''))"
      and second_page = "replicate 100 (test_pr 2 (str ''bob''))"]
  note b = fetch_pagination [where cfg = config and env = no_token and net = mock_never_empty
      and st = initial_state]
  from a h have "length (snd ?A) = 3 \<and> error (fst ?A) = None
      \<and> allPrs (fst ?A) =
          replicate 100 (test_pr 1 (str ''alice'')) @ replicate 100 (test_pr 2 (str ''bob''))
      \<and> length (allPrs (fst ?A)) = 200"
    by blast
  moreover from a e have "loading (fst ?A) = False" by blast
  moreover from b n have "length (snd ?B) = 5" by blast
  moreover from b c have "error (fst ?B) = None" by blast
  ultimately show ?thesis by blast
qed

text \<open>
  Claim C3. If page \<open>k\<close> was requested and the endpoint answered it with a response that
  is not \<open>ok\<close>, then the request for page \<open>k\<close> is the last one (the requests are exactly
  those for pages \<open>1\<close> to \<open>k\<close>), the fetch ends with the error message
  \<open>GitHub API error: <status> <statusText>\<close>, and it is not loading. The same holds when
  pages \<open>1\<close> to \<open>k - 1\<close> are not empty and \<open>k\<close> is within the cap, which is when page \<open>k\<close>
  is requested. The message contains the decimal status code and the reason text.
\<close>

theorem fetch_error_abort:
  fixes cfg env net st
  defines "R \<equiv> fetchPullRequests cfg env net st"
  shows
  "(1 \<le> k \<and> k \<le> length (snd R) \<and> net (build_request cfg env k) = Inr r \<and> \<not> ok r \<longrightarrow>
      length (snd R) = k
      \<and> map fst (snd R) = map (build_request cfg env) [1..<Suc k]
      \<and> error (fst R) = Some (api_error r) \<and> loading (fst R) = False)
   \<and> (1 \<le> k \<and> k \<le> maxPages cfg
        \<and> (\<forall>j. 1 \<le> j \<and> j < k \<longrightarrow> nonempty_page cfg env net j)
        \<and> net (build_request cfg env k) = Inr r \<and> \<not> ok r \<longrightarrow>
      length (snd R) = k
      \<and> map fst (snd R) = map (build_request cfg env) [1..<Suc k]
      \<and> error (fst R) = Some (api_error r) \<and> loading (fst R) = False)
   \<and> api_error r = str ''GitHub API error: '' @ toString (status r) @ str '' '' @ statusText r
   \<and> sublist (toString (status r)) (api_error r)
   \<and> sublist (statusText r) (api_error r)"
proof -
  have len: "length (snd R) = requests_issued cfg env net"
    unfolding R_def by (rule fetch_log_length)
  have req: "map fst (snd R) = map (build_request cfg env) [1..<Suc (requests_issued cfg env net)]"
    unfolding R_def by (rule fetch_log_requests)
  have A: "length (snd R) = k
      \<and> map fst (snd R) = map (build_request cfg env) [1..<Suc k]
      \<and> error (fst R) = Some (api_error r) \<and> loading (fst R) = False"
    if h: "1 \<le> k" "k \<le> length (snd R)" "net (build_request cfg env k) = Inr r" "\<not> ok r"
  proof -
    have e: "fetch_page cfg env net k = Inl (Error (api_error r))"
      using h(3,4) by (rule fetch_page_not_ok)
    have k2: "k \<le> requests_issued cfg env net" using h(2) by (simp only: len)
    note f = fetch_error_at_requested [OF h(1) k2 e]
    have "error (fst R) = Some (api_error r)" "loading (fst R) = False"
      unfolding R_def f(1) by (simp_all add: message_def)
    then show ?thesis using req len f(2) by simp
  qed
  have B: "length (snd R) = k
      \<and> map fst (snd R) = map (build_request cfg env) [1..<Suc k]
      \<and> error (fst R) = Some (api_error r) \<and> loading (fst R) = False"
    if h: "1 \<le> k" "k \<le> maxPages cfg" "\<forall>j. 1 \<le> j \<and> j < k \<longrightarrow> nonempty_page cfg env net j"
      "net (build_request cfg env k) = Inr r" "\<not> ok r"
  proof -
    have e: "fetch_page cfg env net k = Inl (Error (api_error r))"
      using h(4,5) by (rule fetch_page_not_ok)
    have good: "\<And>j. 1 \<le> j \<Longrightarrow> j < k \<Longrightarrow> nonempty_page cfg env net j"
      using h(3) by blast
    note f = fetch_ends_error [OF h(1,2) good e]
    have "k \<le> length (snd R)" by (simp only: len f(2))
    with h show ?thesis by (intro A) simp_all
  qed
  have C: "sublist (toString (status r)) (api_error r)"
    unfolding api_error_def by (rule sublist_appendI)
  have "api_error r = (str ''GitHub API error: '' @ toString (status r) @ str '' '') @ statusText r @ []"
    by (simp add: api_error_def)
  then have D: "sublist (statusText r) (api_error r)"
    by (simp only: sublist_appendI)
  show ?thesis using A B C D by (simp add: api_error_def)
qed

theorem fetch_error_abort_witness:
  "error (fst (fetchPullRequests config no_token mock_403_on_page_2 initial_state)) =
     Some (str ''GitHub API error: 403 Forbidden'')
   \<and> map fst (snd (fetchPullRequests config no_token mock_403_on_page_2 initial_state)) =
       [build_request config no_token 1, build_request config no_token 2]
   \<and> loading (fst (fetchPullRequests config no_token mock_403_on_page_2 initial_state)) = False
   \<and> sublist (str ''403'') (str ''GitHub API error: 403 Forbidden'')
   \<and> sublist (str ''Forbidden'') (str ''GitHub API error: 403 Forbidden'')"
proof -
  let ?R = "fetchPullRequests config no_token mock_403_on_page_2 initial_state"
  have h: "(1::nat) \<le> 2 \<and> 2 \<le> maxPages config
        \<and> (\<forall>j. 1 \<le> j \<and> j < 2 \<longrightarrow> nonempty_page config no_token mock_403_on_page_2 j)
        \<and> mock_403_on_page_2 (build_request config no_token 2) = Inr forbidden_response
        \<and> \<not> ok forbidden_response"
  proof -
    have "nonempty_page config no_token mock_403_on_page_2 j" if "1 \<le> j \<and> j < 2" for j
    proof -
      from that have "j = 1" by simp
      then show ?thesis using mock_403_pages(4) [of no_token] by simp
    qed
    then show ?thesis using mock_403_pages(2) [of no_token] mock_403_pages(3)
      by (simp add: config_maxPages)
  qed
  have g: "(1::nat) \<le> 2 \<and> 2 \<le> length (snd ?R)
        \<and> mock_403_on_page_2 (build_request config no_token 2) = Inr forbidden_response
        \<and> \<not> ok forbidden_response"
    using h by (simp add: fetch_log_length run_403(2))
  have u: "[1..<Suc 2] = [1, 2::nat]" by (simp add: upt_rec)
  have s: "statusText forbidden_response = str ''Forbidden''"
    by (simp add: forbidden_response_def)
  note t = fetch_error_abort [where cfg = config and env = no_token
      and net = mock_403_on_page_2 and st = initial_state and k = 2 and r = forbidden_response]
  from t h have "map fst (snd ?R) = map (build_request config no_token) [1..<Suc 2]
      \<and> error (fst ?R) = Some (api_error forbidden_response)"
    by blast
  moreover from t g have "loading (fst ?R) = False" by blast
  moreover from t have "sublist (toString (status forbidden_response)) (api_error forbidden_response)
      \<and> sublist (statusText forbidden_response) (api_error forbidden_response)"
    by blast
  ultimately show ?thesis by (simp only: u forbidden_message s list.map)
qed

text \<open>
  Claim C6. Entry \<open>i\<close> of the log (counted from 0) is the request for page \<open>i + 1\<close>
  together with the state visible while that request is pending, that is after page \<open>i\<close>
  has resolved and before page \<open>i + 1\<close> resolves. For \<open>1 \<le> k \<le> i\<close> page \<open>k\<close> was fetched
  without error and was not empty, the visible accumulated collection is the
  concatenation of pages \<open>1\<close> to \<open>i\<close>, and so it starts with the records of pages \<open>1\<close> to
  \<open>k\<close>. The state the fetch leaves, with or without error, starts with the records of
  pages \<open>1\<close> to \<open>k\<close> for every requested page \<open>k\<close>. When the fetch ends with an error
  after at least one page was accumulated, the accumulated collection is exactly the
  concatenation of the pages before the failing one: nothing already fetched is lost.
\<close>

theorem fetch_incremental_visibility:
  fixes cfg env net st
  defines "R \<equiv> fetchPullRequests cfg env net st"
  shows
  "(1 \<le> k \<and> k \<le> i \<and> i < length (snd R) \<longrightarrow>
      nonempty_page cfg env net k
      \<and> allPrs (snd (snd R ! i)) = accumulated cfg env net i
      \<and> prefix (accumulated cfg env net k) (allPrs (snd (snd R ! i))))
   \<and> (1 \<le> k \<and> k \<le> length (snd R) \<longrightarrow>
        prefix (accumulated cfg env net k) (allPrs (fst R)))
   \<and> (error (fst R) \<noteq> None \<and> 2 \<le> length (snd R) \<longrightarrow>
        allPrs (fst R) = accumulated cfg env net (length (snd R) - 1))"
proof -
  have len: "length (snd R) = requests_issued cfg env net"
    unfolding R_def by (rule fetch_log_length)
  have A: "nonempty_page cfg env net k
      \<and> allPrs (snd (snd R ! i)) = accumulated cfg env net i
      \<and> prefix (accumulated cfg env net k) (allPrs (snd (snd R ! i)))"
    if h: "1 \<le> k" "k \<le> i" "i < length (snd R)"
  proof -
    have i: "i < requests_issued cfg env net" using h(3) by (simp only: len)
    have "0 < i" using h by simp
    then have "allPrs (snd (snd R ! i)) = accumulated cfg env net i"
      unfolding R_def fetch_log_nth [OF i] by (simp add: snapshot_allPrs0)
    moreover have "nonempty_page cfg env net k"
      using h(1,2) i by (rule requested_before_last_good)
    ultimately show ?thesis using h(2) by (simp add: accumulated_prefix)
  qed
  have B: "prefix (accumulated cfg env net k) (allPrs (fst R))" if "k \<le> length (snd R)"
    unfolding R_def using that by (intro fetch_final_prefix) (simp only: len)
  have C: "allPrs (fst R) = accumulated cfg env net (length (snd R) - 1)"
    if h: "error (fst R) \<noteq> None" "2 \<le> length (snd R)"
  proof -
    from h(1) obtain err where
      f: "fst R = (snapshot cfg env net 1 [] (st\<lparr>loading := True, error := None\<rparr>)
              (good_pages cfg env net 1))\<lparr>error := Some (message err), loading := False\<rparr>"
      and n: "requests_issued cfg env net = Suc (good_pages cfg env net 1)"
      unfolding R_def by (rule fetch_error_cases)
    from h(2) n have "0 < good_pages cfg env net 1" by (simp add: len)
    then show ?thesis by (simp add: f len n snapshot_allPrs0)
  qed
  show ?thesis using A B C by blast
qed

theorem fetch_incremental_visibility_witness:
  "allPrs (snd (snd (fetchPullRequests config no_token mock_403_on_page_2 initial_state) ! 1)) =
     [test_pr 1 (str ''alice'')]
   \<and> error (fst (fetchPullRequests config no_token mock_403_on_page_2 initial_state)) \<noteq> None
   \<and> allPrs (fst (fetchPullRequests config no_token mock_403_on_page_2 initial_state)) =
     [test_pr 1 (str ''alice'')]
   \<and> prefix [test_pr 1 (str ''alice'')]
       (allPrs (fst (fetchPullRequests config no_token mock_403_on_page_2 initial_state)))"
proof -
  let ?R = "fetchPullRequests config no_token mock_403_on_page_2 initial_state"
  have len: "length (snd ?R) = 2" by (simp only: fetch_log_length run_403(2))
  have e: "error (fst ?R) \<noteq> None" by (simp add: run_403(1))
  have a: "accumulated config no_token mock_403_on_page_2 1 = [test_pr 1 (str ''alice'')]"
    by (rule mock_403_accumulated)
  have h1: "(1::nat) \<le> 1 \<and> (1::nat) \<le> 1 \<and> 1 < length (snd ?R)" by (simp add: len)
  have h2: "error (fst ?R) \<noteq> None \<and> 2 \<le> length (snd ?R)" using e by (simp add: len)
  have h3: "(1::nat) \<le> 1 \<and> 1 \<le> length (snd ?R)" by (simp add: len)
  note t = fetch_incremental_visibility [where cfg = config and env = no_token
      and net = mock_403_on_page_2 and st = initial_state and k = 1 and i = 1]
  from t h1 have "allPrs (snd (snd ?R ! 1)) = accumulated config no_token mock_403_on_page_2 1"
    by blast
  moreover from t h2 have "allPrs (fst ?R) =
      accumulated config no_token mock_403_on_page_2 (length (snd ?R) - 1)"
    by blast
  moreover from t h3 have "prefix (accumulated config no_token mock_403_on_page_2 1)
      (allPrs (fst ?R))"
    by blast
  ultimately show ?thesis using e a by (simp add: len)
qed

text \<open>
  Claim C7, as amended. Every invocation starts again at page 1 (the first request is
  the request for page 1 and the requests are those for pages 1, 2, 3, ...), and which
  requests it issues does not depend on the state it starts from: the local accumulator
  starts empty. When the invocation ends without error, or when page 1 is within the cap
  and is not empty, the prior accumulated data is replaced by exactly the records fetched
  by this invocation. When the invocation ends with an error and page 1 was not fetched
  as a non-empty page, the prior accumulated data is left in place.
\<close>

theorem fetch_restart_replaces:
  fixes cfg env net st
  defines "R \<equiv> fetchPullRequests cfg env net st"
  shows
  "(1 \<le> maxPages cfg \<longrightarrow> snd R \<noteq> [] \<and> fst (hd (snd R)) = build_request cfg env 1)
   \<and> map fst (snd R) = map (build_request cfg env) [1..<Suc (length (snd R))]
   \<and> map fst (snd (fetchPullRequests cfg env net prior)) = map fst (snd R)
   \<and> (error (fst R) = None \<or> (1 \<le> maxPages cfg \<and> nonempty_page cfg env net 1) \<longrightarrow>
        allPrs (fst R) = accumulated cfg env net (length (snd R)))
   \<and> (error (fst R) \<noteq> None \<and> \<not> nonempty_page cfg env net 1 \<longrightarrow>
        allPrs (fst R) = allPrs st)"
proof -
  have len: "length (snd R) = requests_issued cfg env net"
    unfolding R_def by (rule fetch_log_length)
  have req: "map fst (snd R) = map (build_request cfg env) [1..<Suc (length (snd R))]"
    unfolding len unfolding R_def by (rule fetch_log_requests)
  have A: "snd R \<noteq> [] \<and> fst (hd (snd R)) = build_request cfg env 1" if "1 \<le> maxPages cfg"
  proof -
    have "1 \<le> requests_issued cfg env net" using that by (simp add: requests_issued_def)
    then have pos: "0 < length (snd R)" by (simp add: len)
    then have "snd R \<noteq> []" by simp
    moreover have "fst (hd (snd R)) = map fst (snd R) ! 0"
      using pos by (simp add: hd_conv_nth)
    moreover have "map (build_request cfg env) [1..<Suc (length (snd R))] ! 0 = build_request cfg env 1"
      using pos by (simp del: upt_Suc)
    ultimately show ?thesis by (metis req)
  qed
  have B: "map fst (snd (fetchPullRequests cfg env net prior)) = map fst (snd R)"
    unfolding R_def by (simp only: fetch_log_requests)
  have C: "allPrs (fst R) = accumulated cfg env net (length (snd R))"
    if "error (fst R) = None \<or> (1 \<le> maxPages cfg \<and> nonempty_page cfg env net 1)"
  proof (cases "error (fst R) = None")
    case True
    then show ?thesis unfolding len unfolding R_def by (rule fetch_success_allPrs)
  next
    case False
    with that have g1: "1 \<le> maxPages cfg" "nonempty_page cfg env net 1" by auto
    from False obtain err where
      f: "fst R = (snapshot cfg env net 1 [] (st\<lparr>loading := True, error := None\<rparr>)
              (good_pages cfg env net 1))\<lparr>error := Some (message err), loading := False\<rparr>"
      and s: "Suc (good_pages cfg env net 1) \<le> maxPages cfg"
      unfolding R_def by (rule fetch_error_cases)
    have "good_pages cfg env net 1 \<noteq> 0"
    proof
      assume z: "good_pages cfg env net 1 = 0"
      have "\<not> nonempty_page cfg env net (1 + good_pages cfg env net 1)"
        using s by (intro good_pages_stop) simp
      with g1(2) z show False by simp
    qed
    then show ?thesis by (simp add: f len accumulated_requests snapshot_allPrs0)
  qed
  have D: "allPrs (fst R) = allPrs st"
    if h: "error (fst R) \<noteq> None" "\<not> nonempty_page cfg env net 1"
  proof -
    from h(1) obtain err where
      f: "fst R = (snapshot cfg env net 1 [] (st\<lparr>loading := True, error := None\<rparr>)
              (good_pages cfg env net 1))\<lparr>error := Some (message err), loading := False\<rparr>"
      unfolding R_def by (rule fetch_error_cases)
    have "good_pages cfg env net 1 = 0"
    proof (rule ccontr)
      assume "good_pages cfg env net 1 \<noteq> 0"
      then have "nonempty_page cfg env net 1" by (intro good_pages_all [of 1 1]) simp_all
      with h(2) show False by simp
    qed
    then show ?thesis by (simp add: f snapshot_def)
  qed
  show ?thesis using A req B C D by blast
qed

theorem fetch_restart_replaces_witness:
  "fst (hd (snd (fetchPullRequests config no_token mock_403_on_page_2 test_state))) =
     build_request config no_token 1
   \<and> allPrs (fst (fetchPullRequests config no_token mock_403_on_page_2 test_state)) =
       [test_pr 1 (str ''alice'')]
   \<and> allPrs (fst (fetchPullRequests config no_token net_down test_state)) = allPrs test_state"
proof -
  let ?R = "fetchPullRequests config no_token mock_403_on_page_2 test_state"
  let ?D = "fetchPullRequests config no_token net_down test_state"
  have m: "1 \<le> maxPages config" by (simp add: config_maxPages)
  have g: "error (fst ?R) = None \<or>
      (1 \<le> maxPages config \<and> nonempty_page config no_token mock_403_on_page_2 1)"
    using m mock_403_pages(4) [of no_token] by simp
  have d: "error (fst ?D) \<noteq> None \<and> \<not> nonempty_page config no_token net_down 1"
    by (simp add: run_down(1) net_down_pages)
  have a: "accumulated config no_token mock_403_on_page_2 (length (snd ?R)) =
      [test_pr 1 (str ''alice'')]"
    by (simp only: fetch_log_length run_403(2) mock_403_accumulated)
  note t = fetch_restart_replaces [where cfg = config and env = no_token
      and net = mock_403_on_page_2 and st = test_state and prior = initial_state]
  note u = fetch_restart_replaces [where cfg = config and env = no_token
      and net = net_down and st = test_state and prior = initial_state]
  from t m have "fst (hd (snd ?R)) = build_request config no_token 1" by blast
  moreover from t g have "allPrs (fst ?R) =
      accumulated config no_token mock_403_on_page_2 (length (snd ?R))" by blast
  moreover from u d have "allPrs (fst ?D) = allPrs test_state" by blast
  ultimately show ?thesis by (simp only: a) 
qed

text \<open>
  Claim C7 as stated (every invocation discards the prior accumulated data and replaces
  it by the newly fetched records) fails: a first fetch gets page 1 and is refused on
  page 2; the retry finds the network down. The retry fetched no record, and the
  accumulated collection still holds the record of the first fetch.
\<close>

theorem retry_keeps_prior_counterexample:
  "allPrs state_after_403 = [test_pr 1 (str ''alice'')]
   \<and> allPrs (fst (fetchPullRequests config no_token net_down state_after_403)) =
       [test_pr 1 (str ''alice'')]
   \<and> accumulated config no_token net_down
       (length (snd (fetchPullRequests config no_token net_down state_after_403))) = []"
proof -
  have "accumulated config no_token net_down 1 = []"
    using net_down_pages(1) [of config no_token 1] by (simp add: accumulated_def page_records_def)
  then show ?thesis
    by (simp add: state_after_403_def run_403(1) run_down fetch_log_length)
qed

text \<open>
  Claim C8. The environment holds a credential when the variable \<open>GITHUB_TOKEN\<close> holds a
  non-empty string (the test \<open>if (process.env.GITHUB_TOKEN)\<close>); an undefined variable or
  an empty string is no credential. If a credential is present, every request of the
  fetch has the headers \<open>Accept\<close> and \<open>Authorization\<close>, the latter with the value
  \<open>token\<close> followed by the credential. If it is absent, every request has the \<open>Accept\<close>
  header only, and the fetch proceeds normally: when the endpoint answers the request
  without \<open>Authorization\<close> for every page within the cap with an \<open>ok\<close> response whose body
  parses, the fetch ends without error. Whatever the environment holds, an error at the
  end comes from the last request issued: the network rejected it, or its response was
  not \<open>ok\<close>, or its body did not parse. Absence of the credential is never an error of
  its own.
\<close>

theorem fetch_authorization:
  fixes cfg env net st
  defines "R \<equiv> fetchPullRequests cfg env net st"
  shows
  "(GITHUB_TOKEN env = Some token \<and> token \<noteq> [] \<longrightarrow>
      (\<forall>rq \<in> set (map fst (snd R)).
         headers rq =
           [(str ''Accept'', str ''application/vnd.github.v3+json''),
            (str ''Authorization'', str ''token '' @ token)]
         \<and> map_of (headers rq) (str ''Authorization'') = Some (str ''token '' @ token)))
   \<and> (GITHUB_TOKEN env = None \<or> GITHUB_TOKEN env = Some [] \<longrightarrow>
      (\<forall>rq \<in> set (map fst (snd R)).
         headers rq = [(str ''Accept'', str ''application/vnd.github.v3+json'')]
         \<and> map_of (headers rq) (str ''Authorization'') = None))
   \<and> ((GITHUB_TOKEN env = None \<or> GITHUB_TOKEN env = Some [])
        \<and> (\<forall>k. 1 \<le> k \<and> k \<le> maxPages cfg \<longrightarrow>
              (\<exists>r data.
                 net \<lparr> url = build_url cfg k,
                       headers = [(str ''Accept'', str ''application/vnd.github.v3+json'')] \<rparr>
                   = Inr r
                 \<and> ok r \<and> json r = Inr data)) \<longrightarrow>
        error (fst R) = None)
   \<and> (error (fst R) \<noteq> None \<longrightarrow>
        snd R \<noteq> []
        \<and> ((\<exists>err. net (fst (last (snd R))) = Inl err \<and> error (fst R) = Some (message err))
           \<or> (\<exists>r. net (fst (last (snd R))) = Inr r \<and> \<not> ok r
                 \<and> error (fst R) = Some (api_error r))
           \<or> (\<exists>r err. net (fst (last (snd R))) = Inr r \<and> ok r \<and> json r = Inl err
                 \<and> error (fst R) = Some (message err))))"
proof -
  have len: "length (snd R) = requests_issued cfg env net"
    unfolding R_def by (rule fetch_log_length)
  have hd: "headers rq = build_headers env" if "rq \<in> set (map fst (snd R))" for rq
    using that unfolding R_def by (rule fetch_log_headers)
  have A: "\<forall>rq \<in> set (map fst (snd R)).
         headers rq =
           [(str ''Accept'', str ''application/vnd.github.v3+json''),
            (str ''Authorization'', str ''token '' @ token)]
         \<and> map_of (headers rq) (str ''Authorization'') = Some (str ''token '' @ token)"
    if "GITHUB_TOKEN env = Some token" "token \<noteq> []"
    using hd build_headers_token [OF that] accept_not_authorization by simp
  have B: "\<forall>rq \<in> set (map fst (snd R)).
         headers rq = [(str ''Accept'', str ''application/vnd.github.v3+json'')]
         \<and> map_of (headers rq) (str ''Authorization'') = None"
    if "GITHUB_TOKEN env = None \<or> GITHUB_TOKEN env = Some []"
    using hd build_headers_no_token [OF that] accept_not_authorization by simp
  have E: "\<exists>err. fetch_page cfg env net (length (snd R)) = Inl err
      \<and> error (fst R) = Some (message err) \<and> 1 \<le> length (snd R)
      \<and> fst (last (snd R)) = build_request cfg env (length (snd R))"
    if "error (fst R) \<noteq> None"
  proof -
    from that obtain err where
      f: "fst R = (snapshot cfg env net 1 [] (st\<lparr>loading := True, error := None\<rparr>)
              (good_pages cfg env net 1))\<lparr>error := Some (message err), loading := False\<rparr>"
      and e: "fetch_page cfg env net (Suc (good_pages cfg env net 1)) = Inl err"
      and n: "requests_issued cfg env net = Suc (good_pages cfg env net 1)"
      unfolding R_def by (rule fetch_error_cases)
    have "1 \<le> requests_issued cfg env net" by (simp add: n)
    then have "fst (last (snd R)) = build_request cfg env (requests_issued cfg env net)"
      unfolding R_def by (rule fetch_log_last)
    then show ?thesis using e by (simp add: f len n)
  qed
  have D: "snd R \<noteq> []
        \<and> ((\<exists>err. net (fst (last (snd R))) = Inl err \<and> error (fst R) = Some (message err))
           \<or> (\<exists>r. net (fst (last (snd R))) = Inr r \<and> \<not> ok r
                 \<and> error (fst R) = Some (api_error r))
           \<or> (\<exists>r err. net (fst (last (snd R))) = Inr r \<and> ok r \<and> json r = Inl err
                 \<and> error (fst R) = Some (message err)))"
    if "error (fst R) \<noteq> None"
  proof -
    from E [OF that] obtain err where
      e: "fetch_page cfg env net (length (snd R)) = Inl err"
      and m: "error (fst R) = Some (message err)"
      and p: "1 \<le> length (snd R)"
      and l: "fst (last (snd R)) = build_request cfg env (length (snd R))"
      by blast
    have ne: "snd R \<noteq> []" using p by auto
    have me: "message (Error (api_error r)) = api_error r" for r
      by (simp add: message_def)
    from fetch_page_Inl_cases [OF e] show ?thesis
      unfolding l [symmetric] using ne m me by auto
  qed
  have C: "error (fst R) = None"
    if a: "GITHUB_TOKEN env = None \<or> GITHUB_TOKEN env = Some []"
      and h: "\<forall>k. 1 \<le> k \<and> k \<le> maxPages cfg \<longrightarrow>
              (\<exists>r data.
                 net \<lparr> url = build_url cfg k,
                       headers = [(str ''Accept'', str ''application/vnd.github.v3+json'')] \<rparr>
                   = Inr r
                 \<and> ok r \<and> json r = Inr data)"
  proof (rule ccontr)
    assume "error (fst R) \<noteq> None"
    from E [OF this] obtain err where e: "fetch_page cfg env net (length (snd R)) = Inl err"
      and p: "1 \<le> length (snd R)" by blast
    have "length (snd R) \<le> maxPages cfg" unfolding len by (rule requests_issued_le)
    with p h obtain r data where
      "net \<lparr> url = build_url cfg (length (snd R)),
             headers = [(str ''Accept'', str ''application/vnd.github.v3+json'')] \<rparr> = Inr r"
      "ok r" "json r = Inr data"
      by blast
    then have "fetch_page cfg env net (length (snd R)) = Inr data"
      unfolding build_request_absent [OF a, symmetric] by (rule fetch_page_answered)
    with e show False by simp
  qed
  show ?thesis using A B C D by blast
qed

theorem fetch_authorization_witness:
  "map_of (headers (fst (hd (snd (fetchPullRequests config test_token net_down initial_state)))))
     (str ''Authorization'') = Some (str ''token ghp_abc'')
   \<and> map_of (headers (fst (hd (snd (fetchPullRequests config no_token net_down initial_state)))))
     (str ''Authorization'') = None
   \<and> headers (fst (hd (snd (fetchPullRequests config empty_token net_down initial_state)))) =
       [(str ''Accept'', str ''application/vnd.github.v3+json'')]
   \<and> error (fst (fetchPullRequests config no_token mock_never_empty initial_state)) = None
   \<and> error (fst (fetchPullRequests config no_token net_down initial_state)) =
       Some (str ''Network request failed'')"
proof -
  let ?T = "fetchPullRequests config test_token net_down initial_state"
  let ?N = "fetchPullRequests config no_token net_down initial_state"
  let ?E = "fetchPullRequests config empty_token net_down initial_state"
  have len: "length (snd (fetchPullRequests config env net_down initial_state)) = 1" for env
    by (simp only: fetch_log_length run_down(2))
  have mem: "fst (hd (snd (fetchPullRequests config env net_down initial_state)))
      \<in> set (map fst (snd (fetchPullRequests config env net_down initial_state)))" for env
  proof -
    have "snd (fetchPullRequests config env net_down initial_state) \<noteq> []"
      using len [of env] by auto
    then show ?thesis by simp
  qed
  have tk: "GITHUB_TOKEN test_token = Some (str ''ghp_abc'') \<and> str ''ghp_abc'' \<noteq> []"
    by (simp add: test_token_def str_def)
  have nk: "GITHUB_TOKEN no_token = None \<or> GITHUB_TOKEN no_token = Some []"
    by (simp add: no_token_def)
  have ek: "GITHUB_TOKEN empty_token = None \<or> GITHUB_TOKEN empty_token = Some []"
    by (simp add: empty_token_def)
  have ok: "\<forall>k. 1 \<le> k \<and> k \<le> maxPages config \<longrightarrow>
      (\<exists>r data.
         mock_never_empty
           \<lparr> url = build_url config k,
             headers = [(str ''Accept'', str ''application/vnd.github.v3+json'')] \<rparr> = Inr r
         \<and> ok r \<and> json r = Inr data)"
    by (simp add: mock_never_empty_def ok_response_def)
  have er: "error (fst ?N) \<noteq> None" by (simp add: run_down(1))
  note n = fetch_authorization [where cfg = config and env = no_token and net = net_down
      and st = initial_state]
  from tk mem [of test_token]
    fetch_authorization [where cfg = config and env = test_token and net = net_down
      and st = initial_state and token = "str ''ghp_abc''"]
  have "map_of (headers (fst (hd (snd ?T)))) (str ''Authorization'') =
      Some (str ''token '' @ str ''ghp_abc'')"
    by blast
  moreover from nk mem [of no_token] n
  have "map_of (headers (fst (hd (snd ?N)))) (str ''Authorization'') = None"
    by blast
  moreover from ek mem [of empty_token]
    fetch_authorization [where cfg = config and env = empty_token and net = net_down
      and st = initial_state]
  have "headers (fst (hd (snd ?E))) = [(str ''Accept'', str ''application/vnd.github.v3+json'')]"
    by blast
  moreover from nk ok
    fetch_authorization [where cfg = config and env = no_token and net = mock_never_empty
      and st = initial_state]
  have "error (fst (fetchPullRequests config no_token mock_never_empty initial_state)) = None"
    by blast
  moreover from er n have
    "(\<exists>err. net_down (fst (last (snd ?N))) = Inl err \<and> error (fst ?N) = Some (message err))
     \<or> (\<exists>r. net_down (fst (last (snd ?N))) = Inr r \<and> \<not> ok r
           \<and> error (fst ?N) = Some (api_error r))
     \<or> (\<exists>r err. net_down (fst (last (snd ?N))) = Inr r \<and> ok r \<and> json r = Inl err
           \<and> error (fst ?N) = Some (message err))"
    by blast
  then have "error (fst ?N) = Some (str ''Network request failed'')"
    by (auto simp: net_down_def message_def)
  moreover have "str ''token '' @ str ''ghp_abc'' = str ''token ghp_abc''"
    by (simp add: str_def)
  ultimately show ?thesis by simp
qed

end
